theory Spec2Isabelle
  imports Main "HOL-Library.Char_ord" "HOL-Library.List_Lexorder" "HOL-Library.Multiset"
begin

section \<open>Values loaded from the input file\<close>

text \<open>
  \<^verbatim>\<open>json.load\<close> yields Python values: \<^verbatim>\<open>None\<close>, booleans, integers, floats,
  strings, lists and dicts. A float is kept as mantissa and binary exponent (the
  program only ever tests it for zero). A dict is an association list in insertion
  order, looked up with \<open>map_of\<close>. Python strings are modelled as \<open>string\<close>.
\<close>

datatype json =
    JNull
  | JBool bool
  | JInt int
  | JFloat int int
  | JStr string
  | JArr "json list"
  | JObj "(string \<times> json) list"

text \<open>
  Exceptions (all subclasses of \<^verbatim>\<open>Exception\<close>). \<open>HTTPError code reason\<close>,
  \<open>URLError reason\<close> and \<open>ParseError msg\<close> are the three classes that \<open>main\<close>
  names in its handlers; every other exception carries the text of \<^verbatim>\<open>str(e)\<close>
  (\<open>ValueError\<close> and \<open>LookupError\<close> are what the XML parser raises on an
  encoding it does not support or does not know).
\<close>

datatype exn =
    HTTPError int string
  | URLError string
  | ParseError string
  | AttributeError string
  | TypeError string
  | ValueError string
  | LookupError string
  | OtherException string

text \<open>Truthiness of a value, as tested by \<^verbatim>\<open>not x\<close> and \<^verbatim>\<open>x or y\<close>.\<close>

fun truthy :: "json \<Rightarrow> bool" where
  "truthy JNull = False"
| "truthy (JBool b) = b"
| "truthy (JInt i) = (i \<noteq> 0)"
| "truthy (JFloat m e) = (m \<noteq> 0)"
| "truthy (JStr s) = (s \<noteq> [])"
| "truthy (JArr xs) = (xs \<noteq> [])"
| "truthy (JObj kvs) = (kvs \<noteq> [])"

definition py_or :: "json \<Rightarrow> json \<Rightarrow> json" where
  "py_or a b = (if truthy a then a else b)"

text \<open>\<^verbatim>\<open>m.get(key)\<close>: only a dict has the method; a missing key gives \<^verbatim>\<open>None\<close>.\<close>

fun dict_get :: "json \<Rightarrow> string \<Rightarrow> exn + json" where
  "dict_get (JObj kvs) k = Inr (case map_of kvs k of None \<Rightarrow> JNull | Some v \<Rightarrow> v)"
| "dict_get (JArr xs) k = Inl (AttributeError ''list object has no attribute get'')"
| "dict_get (JStr s) k = Inl (AttributeError ''str object has no attribute get'')"
| "dict_get (JInt i) k = Inl (AttributeError ''int object has no attribute get'')"
| "dict_get (JFloat m e) k = Inl (AttributeError ''float object has no attribute get'')"
| "dict_get (JBool b) k = Inl (AttributeError ''bool object has no attribute get'')"
| "dict_get JNull k = Inl (AttributeError ''NoneType object has no attribute get'')"

text \<open>
  \<^verbatim>\<open>len(meetups)\<close> followed by \<^verbatim>\<open>enumerate(meetups, start=1)\<close>: a list gives its
  elements, a dict its keys, a string its characters; anything else has no length.
\<close>

fun py_iter :: "json \<Rightarrow> exn + json list" where
  "py_iter (JArr xs) = Inr xs"
| "py_iter (JObj kvs) = Inr (map (\<lambda>kv. JStr (fst kv)) kvs)"
| "py_iter (JStr s) = Inr (map (\<lambda>c. JStr [c]) s)"
| "py_iter (JInt i) = Inl (TypeError ''object of type int has no len()'')"
| "py_iter (JFloat m e) = Inl (TypeError ''object of type float has no len()'')"
| "py_iter (JBool b) = Inl (TypeError ''object of type bool has no len()'')"
| "py_iter JNull = Inl (TypeError ''object of type NoneType has no len()'')"

subsection \<open>String helpers\<close>

text \<open>\<^verbatim>\<open>str(n)\<close> for the integers that the program formats into a message.\<close>

fun decimal :: "nat \<Rightarrow> string" where
  "decimal n =
     (if 10 \<le> n then decimal (n div 10) @ [''0123456789'' ! (n mod 10)]
      else [''0123456789'' ! n])"

declare decimal.simps [simp del]

definition py_str_int :: "int \<Rightarrow> string" where
  "py_str_int i = (if 0 \<le> i then decimal (nat i) else CHR ''-'' # decimal (nat (- i)))"

text \<open>
  The method \<^verbatim>\<open>.lower()\<close> exists on strings only. What it makes of a string is
  the Unicode case mapping of the library, not code of this repository: it is the
  parameter \<open>L\<close> of the model. A string stands for its UTF-8 bytes, which compare
  as its code points do.
\<close>

fun lower :: "(string \<Rightarrow> string) \<Rightarrow> json \<Rightarrow> exn + string" where
  "lower L (JStr s) = Inr (L s)"
| "lower L (JInt i) = Inl (AttributeError ''int object has no attribute lower'')"
| "lower L (JFloat m e) = Inl (AttributeError ''float object has no attribute lower'')"
| "lower L (JBool b) = Inl (AttributeError ''bool object has no attribute lower'')"
| "lower L (JArr xs) = Inl (AttributeError ''list object has no attribute lower'')"
| "lower L (JObj kvs) = Inl (AttributeError ''dict object has no attribute lower'')"
| "lower L JNull = Inl (AttributeError ''NoneType object has no attribute lower'')"

section \<open>The feed document\<close>

text \<open>
  An \<^verbatim>\<open>xml.etree.ElementTree.Element\<close>: tag, text (\<^verbatim>\<open>None\<close> when the element has
  none) and children in document order.
\<close>

datatype element = Element (tag: string) (text_of: "string option") (children: "element list")

definition ET_find :: "string \<Rightarrow> element \<Rightarrow> element option" where
  "ET_find t e = List.find (\<lambda>c. tag c = t) (children e)"

definition ET_findall :: "string \<Rightarrow> element \<Rightarrow> element list" where
  "ET_findall t e = filter (\<lambda>c. tag c = t) (children e)"

text \<open>
  \<^verbatim>\<open>findtext\<close> returns \<^verbatim>\<open>None\<close> when no child has the tag, and the empty string
  when the first such child has no text.
\<close>

definition ET_findtext :: "string \<Rightarrow> element \<Rightarrow> string option" where
  "ET_findtext t e =
     (case ET_find t e of
        None \<Rightarrow> None
      | Some c \<Rightarrow> Some (case text_of c of None \<Rightarrow> [] | Some s \<Rightarrow> s))"

record datetime =
  year :: int
  month :: int
  day :: int

section \<open>The world outside the program\<close>

text \<open>
  The file system, the network, the XML parser, the date parser and the random
  generator are not code of this repository; they are parameters of the model.
  \<^item> \<open>json_load p\<close>: \<^verbatim>\<open>open(p)\<close> followed by \<^verbatim>\<open>json.load\<close>;
  \<^item> \<open>urlopen t u\<close>: what a request for \<open>u\<close> issued at time \<open>t\<close> (seconds) reads,
    or the exception it raises;
  \<^item> \<open>ET_fromstring b\<close>: the parsed document, or the exception the parser raises
    (a \<^verbatim>\<open>ParseError\<close>, or a \<^verbatim>\<open>ValueError\<close> or \<^verbatim>\<open>LookupError\<close> for the encoding);
  \<^item> \<open>parsedate_to_datetime s\<close>: \<open>None\<close> when \<^verbatim>\<open>email.utils\<close> raises;
  \<^item> \<open>random_raw k\<close>: the raw output of the generator at its \<open>k\<close>-th draw.
\<close>

record env =
  json_load :: "string \<Rightarrow> exn + json"
  urlopen :: "nat \<Rightarrow> json \<Rightarrow> exn + string"
  ET_fromstring :: "string \<Rightarrow> exn + element"
  parsedate_to_datetime :: "string \<Rightarrow> datetime option"
  random_raw :: "nat \<Rightarrow> nat"

datatype event = Fetch nat json | Sleep nat

text \<open>
  The state of a run: the clock, the number of random draws and the trace of
  network requests and pauses, then the local variables of \<open>main\<close>. A pause
  advances the clock, so what a later request reads may depend on the pauses before
  it. The lines printed to the console are left out of the model.
\<close>

record state =
  clock :: nat
  draws :: nat
  trace :: "event list"
  with_events :: "json list"
  without_events :: "json list"
  errors :: "json list"
  matched_count :: nat
  no_match_count :: nat
  error_count :: nat
  processed :: nat

definition SLEEP_MIN_SECS :: nat where "SLEEP_MIN_SECS = 10"
definition SLEEP_MAX_SECS :: nat where "SLEEP_MAX_SECS = 60"

text \<open>\<^verbatim>\<open>random.randint(a, b)\<close>: some integer between \<open>a\<close> and \<open>b\<close>, both included.\<close>

definition randint :: "env \<Rightarrow> nat \<Rightarrow> nat \<Rightarrow> nat \<Rightarrow> nat" where
  "randint E k a b = a + random_raw E k mod (b - a + 1)"

definition sleep_random :: "env \<Rightarrow> state \<Rightarrow> state" where
  "sleep_random E st =
     (let s = randint E (draws st) SLEEP_MIN_SECS SLEEP_MAX_SECS
      in st\<lparr>clock := clock st + s, draws := Suc (draws st), trace := trace st @ [Sleep s]\<rparr>)"

definition http_get_bytes :: "env \<Rightarrow> json \<Rightarrow> state \<Rightarrow> (exn + string) \<times> state" where
  "http_get_bytes E url st =
     (urlopen E (clock st) url, st\<lparr>trace := trace st @ [Fetch (clock st) url]\<rparr>)"

section \<open>The classifier\<close>

text \<open>The loop over \<^verbatim>\<open>channel.findall("item")\<close>, on (has_match, pubdates_seen, pubdates_parsed).\<close>

fun scan_items ::
  "(string \<Rightarrow> datetime option) \<Rightarrow> int \<Rightarrow> element list \<Rightarrow> bool \<times> nat \<times> nat \<Rightarrow> bool \<times> nat \<times> nat"
where
  "scan_items pd target_year [] acc = acc"
| "scan_items pd target_year (item # items) (has_match, seen, parsed) =
     (case ET_findtext ''pubDate'' item of
        None \<Rightarrow> scan_items pd target_year items (has_match, seen, parsed)
      | Some pub \<Rightarrow>
          if pub = [] then scan_items pd target_year items (has_match, seen, parsed)
          else (case pd pub of
                  None \<Rightarrow> scan_items pd target_year items (has_match, Suc seen, parsed)
                | Some dt \<Rightarrow>
                    scan_items pd target_year items
                      (if year dt = target_year then True else has_match, Suc seen, Suc parsed)))"

definition rss_has_pubdate_year :: "env \<Rightarrow> string \<Rightarrow> int \<Rightarrow> exn + (bool \<times> nat \<times> nat)" where
  "rss_has_pubdate_year E xml_bytes target_year =
     (case ET_fromstring E xml_bytes of
        Inl e \<Rightarrow> Inl e
      | Inr root \<Rightarrow>
          (case ET_find ''channel'' root of
             None \<Rightarrow> Inr (False, 0, 0)
           | Some channel \<Rightarrow>
               Inr (scan_items (parsedate_to_datetime E) target_year
                      (ET_findall ''item'' channel) (False, 0, 0))))"

section \<open>The classification loop\<close>

text \<open>The message each handler of \<open>main\<close> builds from the exception it caught.\<close>

fun error_msg :: "exn \<Rightarrow> string" where
  "error_msg (HTTPError code reason) = ''HTTPError '' @ py_str_int code @ '': '' @ reason"
| "error_msg (URLError reason) = ''URLError: '' @ reason"
| "error_msg (ParseError s) = ''XML ParseError: '' @ s"
| "error_msg (AttributeError s) = s"
| "error_msg (TypeError s) = s"
| "error_msg (ValueError s) = s"
| "error_msg (LookupError s) = s"
| "error_msg (OtherException s) = s"

text \<open>\<^verbatim>\<open>m.get("meetupID") or m.get("meetupName") or f"row-{idx}"\<close>\<close>

definition resolve_id :: "nat \<Rightarrow> json \<Rightarrow> json \<Rightarrow> json" where
  "resolve_id idx mid mname = py_or (py_or mid mname) (JStr (''row-'' @ decimal idx))"

text \<open>The branch taken when the feed URL is missing or falsy; it ends in \<^verbatim>\<open>continue\<close>.\<close>

definition missing_url :: "json \<Rightarrow> json \<Rightarrow> state \<Rightarrow> state" where
  "missing_url meetup_id m st =
     st\<lparr>processed := processed st + 1,
        error_count := error_count st + 1,
        errors := errors st @
          [JObj [(''meetupID'', meetup_id), (''error'', JStr ''missing meetupUrlRss'')]],
        without_events := without_events st @ [m]\<rparr>"

text \<open>The \<^verbatim>\<open>try\<close> statement: fetch, classify, and the four handlers.\<close>

definition fetch_and_classify :: "env \<Rightarrow> int \<Rightarrow> json \<Rightarrow> json \<Rightarrow> json \<Rightarrow> state \<Rightarrow> state" where
  "fetch_and_classify E target_year meetup_id rss_url m st =
     (let (got, st1) = http_get_bytes E rss_url st;
          res = (case got of
                   Inl e \<Rightarrow> Inl e
                 | Inr xml_bytes \<Rightarrow> rss_has_pubdate_year E xml_bytes target_year)
      in case res of
           Inr (has_match, pub_seen, pub_parsed) \<Rightarrow>
             if has_match then
               st1\<lparr>processed := processed st1 + 1,
                   matched_count := matched_count st1 + 1,
                   with_events := with_events st1 @ [m]\<rparr>
             else
               st1\<lparr>processed := processed st1 + 1,
                   no_match_count := no_match_count st1 + 1,
                   without_events := without_events st1 @ [m]\<rparr>
         | Inl e \<Rightarrow>
             st1\<lparr>processed := processed st1 + 1,
                 error_count := error_count st1 + 1,
                 errors := errors st1 @
                   [JObj [(''meetupID'', meetup_id), (''meetupUrlRss'', rss_url),
                          (''error'', JStr (error_msg e))]],
                 without_events := without_events st1 @ [m]\<rparr>)"

text \<open>One iteration of the \<^verbatim>\<open>for\<close> loop on record \<open>m\<close> with 1-based index \<open>idx\<close>.\<close>

definition body :: "env \<Rightarrow> int \<Rightarrow> nat \<Rightarrow> json \<Rightarrow> state \<Rightarrow> exn + state" where
  "body E target_year idx m st =
     (case dict_get m ''meetupID'' of
        Inl e \<Rightarrow> Inl e
      | Inr mid \<Rightarrow>
     (case dict_get m ''meetupName'' of
        Inl e \<Rightarrow> Inl e
      | Inr mname \<Rightarrow>
     (case dict_get m ''meetupUrlRss'' of
        Inl e \<Rightarrow> Inl e
      | Inr rss_url \<Rightarrow>
          (let meetup_id = resolve_id idx mid mname
           in if \<not> truthy rss_url then Inr (missing_url meetup_id m st)
              else Inr (sleep_random E
                         (fetch_and_classify E target_year meetup_id rss_url m st))))))"

fun loop :: "env \<Rightarrow> int \<Rightarrow> nat \<Rightarrow> json list \<Rightarrow> state \<Rightarrow> state \<times> exn option" where
  "loop E target_year idx [] st = (st, None)"
| "loop E target_year idx (m # ms) st =
     (case body E target_year idx m st of
        Inl e \<Rightarrow> (st, Some e)
      | Inr st' \<Rightarrow> loop E target_year (Suc idx) ms st')"

section \<open>Sorting and writing\<close>

text \<open>The sort key \<^verbatim>\<open>(x.get("meetupID") or "").lower()\<close>.\<close>

definition id_key :: "(string \<Rightarrow> string) \<Rightarrow> json \<Rightarrow> exn + string" where
  "id_key L x =
     (case dict_get x ''meetupID'' of
        Inl e \<Rightarrow> Inl e
      | Inr v \<Rightarrow> lower L (py_or v (JStr [])))"

fun keys_of :: "(string \<Rightarrow> string) \<Rightarrow> json list \<Rightarrow> exn + string list" where
  "keys_of L [] = Inr []"
| "keys_of L (x # xs) =
     (case id_key L x of
        Inl e \<Rightarrow> Inl e
      | Inr k \<Rightarrow> (case keys_of L xs of Inl e \<Rightarrow> Inl e | Inr ks \<Rightarrow> Inr (k # ks)))"

text \<open>
  \<^verbatim>\<open>xs.sort(key=...)\<close>: the keys are computed first, one per element and in order;
  the sort is stable and ascending on the keys.
\<close>

definition list_sort :: "(string \<Rightarrow> string) \<Rightarrow> json list \<Rightarrow> exn + json list" where
  "list_sort L xs =
     (case keys_of L xs of
        Inl e \<Rightarrow> Inl e
      | Inr ks \<Rightarrow> Inr (map snd (sort_key fst (zip ks xs))))"

text \<open>The three lists handed to \<^verbatim>\<open>json.dump\<close>, for the three output files.\<close>

record outputs =
  out_with :: "json list"
  out_without :: "json list"
  out_errors :: "json list"

definition init_state :: state where
  "init_state =
     \<lparr>clock = 0, draws = 0, trace = [], with_events = [], without_events = [], errors = [],
      matched_count = 0, no_match_count = 0, error_count = 0, processed = 0\<rparr>"

text \<open>
  \<open>main\<close> returns the trace of requests and pauses, and either the exception that
  ended the run (no file is written then: the three writes follow the sorts) or the
  contents written. The writes themselves (\<^verbatim>\<open>open\<close> and \<^verbatim>\<open>json.dump\<close>) are
  taken to succeed.
\<close>

definition main ::
  "(string \<Rightarrow> string) \<Rightarrow> env \<Rightarrow> string \<Rightarrow> int \<Rightarrow> event list \<times> (exn + outputs)"
where
  "main L E master_path target_year =
     (case json_load E master_path of
        Inl e \<Rightarrow> ([], Inl e)
      | Inr meetups \<Rightarrow>
     (case py_iter meetups of
        Inl e \<Rightarrow> ([], Inl e)
      | Inr ms \<Rightarrow>
     (case loop E target_year 1 ms init_state of
        (st, Some e) \<Rightarrow> (trace st, Inl e)
      | (st, None) \<Rightarrow>
     (case list_sort L (with_events st) of
        Inl e \<Rightarrow> (trace st, Inl e)
      | Inr w \<Rightarrow>
     (case list_sort L (without_events st) of
        Inl e \<Rightarrow> (trace st, Inl e)
      | Inr wo \<Rightarrow>
     (case list_sort L (errors st) of
        Inl e \<Rightarrow> (trace st, Inl e)
      | Inr er \<Rightarrow>
          (trace st, Inr \<lparr>out_with = w, out_without = wo, out_errors = er\<rparr>)))))))"

section \<open>Notions used to state the properties\<close>

text \<open>A record of the input: a JSON object.\<close>

fun is_record :: "json \<Rightarrow> bool" where
  "is_record (JObj kvs) = True"
| "is_record v = False"

text \<open>A field that is a string, or is falsy (absent, \<^verbatim>\<open>null\<close>, empty, zero).\<close>

fun str_or_falsy :: "json \<Rightarrow> bool" where
  "str_or_falsy (JStr s) = True"
| "str_or_falsy v = (\<not> truthy v)"

fun field :: "json \<Rightarrow> string \<Rightarrow> json" where
  "field (JObj kvs) k = (case map_of kvs k of None \<Rightarrow> JNull | Some v \<Rightarrow> v)"
| "field v k = JNull"

text \<open>The identifier of an output element: its \<^verbatim>\<open>meetupID\<close> when that is a
  string, and the empty string when the element has none.\<close>

definition ident :: "json \<Rightarrow> string" where
  "ident x = (case field x ''meetupID'' of JStr s \<Rightarrow> s | _ \<Rightarrow> [])"

text \<open>What the \<^verbatim>\<open>try\<close> block computes for a feed URL requested at time \<open>t\<close>.\<close>

definition fetch_outcome :: "env \<Rightarrow> int \<Rightarrow> json \<Rightarrow> nat \<Rightarrow> exn + (bool \<times> nat \<times> nat)" where
  "fetch_outcome E target_year rss_url t =
     (case urlopen E t rss_url of
        Inl e \<Rightarrow> Inl e
      | Inr xml_bytes \<Rightarrow> rss_has_pubdate_year E xml_bytes target_year)"

text \<open>The state of \<open>main\<close> when the loop has gone through the first \<open>i\<close> records.\<close>

definition state_after :: "env \<Rightarrow> int \<Rightarrow> json list \<Rightarrow> nat \<Rightarrow> state" where
  "state_after E target_year ms i = fst (loop E target_year 1 (take i ms) init_state)"

text \<open>The date text that the classifier reads off an item: the text of the first
  \<^verbatim>\<open>pubDate\<close> child, when there is one and it is not empty.\<close>

definition pubdate_of :: "element \<Rightarrow> string option" where
  "pubdate_of item =
     (case ET_findtext ''pubDate'' item of
        None \<Rightarrow> None
      | Some pub \<Rightarrow> if pub = [] then None else Some pub)"

text \<open>The year of an item's publication date, when that date parses.\<close>

definition item_year :: "env \<Rightarrow> element \<Rightarrow> int option" where
  "item_year E item =
     (case pubdate_of item of
        None \<Rightarrow> None
      | Some pub \<Rightarrow> map_option year (parsedate_to_datetime E pub))"

text \<open>The pauses of a trace, in order.\<close>

fun sleeps :: "event list \<Rightarrow> nat list" where
  "sleeps [] = []"
| "sleeps (Sleep s # es) = s # sleeps es"
| "sleeps (Fetch t u # es) = sleeps es"

text \<open>The local variables of \<open>main\<close> in a state, without the clock, the random
  generator and the trace.\<close>

definition locals ::
  "state \<Rightarrow> json list \<times> json list \<times> json list \<times> nat \<times> nat \<times> nat \<times> nat" where
  "locals st =
     (with_events st, without_events st, errors st,
      matched_count st, no_match_count st, error_count st, processed st)"

section \<open>A sample run\<close>

text \<open>
  Three feeds as the server sends them, with the documents the XML parser makes of
  them, and an input file of four records: one whose feed has an item of 2026, one
  without a feed URL, one whose feed answers 404, and one whose feed has a date of
  2019, a malformed date, an empty \<^verbatim>\<open>pubDate\<close> and an item without one.
  A fifth feed declares an encoding the XML parser does not support. Two more input
  files: one with a numeric identifier, and one whose four records all end in the
  without-events bucket, two of them without identifier and two whose identifiers
  differ in the case of their first letter. All the identifiers are ASCII, on which
  \<^verbatim>\<open>str.lower()\<close> is \<open>ascii_lower\<close>.
\<close>

definition lower_char :: "char \<Rightarrow> char" where
  "lower_char c =
     (case map_of (zip ''ABCDEFGHIJKLMNOPQRSTUVWXYZ'' ''abcdefghijklmnopqrstuvwxyz'') c of
        None \<Rightarrow> c
      | Some l \<Rightarrow> l)"

definition ascii_lower :: "string \<Rightarrow> string" where
  "ascii_lower s = map lower_char s"

definition feed_hit :: string where
  "feed_hit = ''<rss><channel><item><pubDate>Mon, 05 Jan 2026 18:00:00 GMT</pubDate></item></channel></rss>''"

definition item_2026 :: element where
  "item_2026 = Element ''item'' None [Element ''pubDate'' (Some ''Mon, 05 Jan 2026 18:00:00 GMT'') []]"

definition channel_hit :: element where
  "channel_hit = Element ''channel'' None [item_2026]"

definition tree_hit :: element where
  "tree_hit = Element ''rss'' None [channel_hit]"

definition item_2019 :: element where
  "item_2019 = Element ''item'' None [Element ''pubDate'' (Some ''Tue, 01 Jan 2019 09:00:00 GMT'') []]"

definition item_malformed :: element where
  "item_malformed = Element ''item'' None [Element ''pubDate'' (Some ''next Tuesday'') []]"

definition item_empty :: element where
  "item_empty = Element ''item'' None [Element ''pubDate'' None []]"

definition item_bare :: element where
  "item_bare = Element ''item'' None []"

definition item_titled :: element where
  "item_titled = Element ''item'' None [Element ''title'' (Some ''t'') []]"

definition feed_mixed :: string where
  "feed_mixed = ''<rss><channel><item><pubDate>Tue, 01 Jan 2019 09:00:00 GMT</pubDate></item><item><pubDate>next Tuesday</pubDate></item><item><pubDate/></item><item><title>t</title></item></channel></rss>''"

definition channel_mixed :: element where
  "channel_mixed = Element ''channel'' None [item_2019, item_malformed, item_empty, item_titled]"

definition tree_mixed :: element where
  "tree_mixed = Element ''rss'' None [channel_mixed]"

definition feed_plain :: string where
  "feed_plain = ''<rss><channel><item><pubDate>Tue, 01 Jan 2019 09:00:00 GMT</pubDate></item><item><pubDate>next Tuesday</pubDate></item><item/><item><title>t</title></item></channel></rss>''"

definition channel_plain :: element where
  "channel_plain = Element ''channel'' None [item_2019, item_malformed, item_bare, item_titled]"

definition tree_plain :: element where
  "tree_plain = Element ''rss'' None [channel_plain]"

definition feed_atom :: string where
  "feed_atom = ''<feed><entry/></feed>''"

definition tree_atom :: element where
  "tree_atom = Element ''feed'' None [Element ''entry'' None []]"

definition r_zurich :: json where
  "r_zurich = JObj [(''meetupID'', JStr ''Zurich''), (''meetupUrlRss'', JStr ''https://z.example/rss'')]"

definition r_nofeed :: json where
  "r_nofeed = JObj [(''meetupName'', JStr ''No Feed'')]"

definition r_austin :: json where
  "r_austin = JObj [(''meetupID'', JStr ''austin''), (''meetupUrlRss'', JStr ''https://a.example/rss'')]"

definition r_berlin :: json where
  "r_berlin = JObj [(''meetupID'', JStr ''Berlin''), (''meetupUrlRss'', JStr ''https://b.example/rss'')]"

definition feed_sjis :: string where
  "feed_sjis =
     ''<?xml version='' @ [CHR 0x27] @ ''1.0'' @ [CHR 0x27] @ '' encoding='' @ [CHR 0x27] @
     ''shift_jis'' @ [CHR 0x27] @ ''?><rss/>''"

definition r_tokyo :: json where
  "r_tokyo = JObj [(''meetupID'', JStr ''tokyo''), (''meetupUrlRss'', JStr ''https://t.example/rss'')]"

definition r_numeric :: json where
  "r_numeric = JObj [(''meetupID'', JInt 7), (''meetupUrlRss'', JStr ''https://z.example/rss'')]"

definition r_anon :: json where
  "r_anon = JObj [(''meetupID'', JStr []), (''meetupName'', JStr ''Anon''),
                  (''meetupUrlRss'', JStr ''https://f.example/rss'')]"

definition sample_meetups :: "json list" where
  "sample_meetups = [r_zurich, r_nofeed, r_austin, r_berlin]"

definition sample_env :: env where
  "sample_env =
     \<lparr>json_load = (\<lambda>p.
        if p = ''master_meetups.json'' then Inr (JArr sample_meetups)
        else if p = ''numeric_ids.json'' then Inr (JArr [r_numeric])
        else if p = ''mixed_case.json'' then Inr (JArr [r_berlin, r_nofeed, r_austin, r_anon])
        else Inl (OtherException ''No such file or directory'')),
      urlopen = (\<lambda>t u.
        if u = JStr ''https://z.example/rss'' then Inr feed_hit
        else if u = JStr ''https://b.example/rss'' then Inr feed_mixed
        else if u = JStr ''https://p.example/rss'' then Inr feed_plain
        else if u = JStr ''https://f.example/rss'' then Inr feed_atom
        else if u = JStr ''https://t.example/rss'' then Inr feed_sjis
        else Inl (HTTPError 404 ''Not Found'')),
      ET_fromstring = (\<lambda>b.
        if b = feed_hit then Inr tree_hit
        else if b = feed_mixed then Inr tree_mixed
        else if b = feed_plain then Inr tree_plain
        else if b = feed_atom then Inr tree_atom
        else if b = feed_sjis then Inl (ValueError ''multi-byte encodings are not supported'')
        else Inl (ParseError ''syntax error: line 1, column 0'')),
      parsedate_to_datetime = (\<lambda>s.
        if s = ''Mon, 05 Jan 2026 18:00:00 GMT'' then Some \<lparr>year = 2026, month = 1, day = 5\<rparr>
        else if s = ''Tue, 01 Jan 2019 09:00:00 GMT'' then Some \<lparr>year = 2019, month = 1, day = 1\<rparr>
        else None),
      random_raw = (\<lambda>k. 7 * k + 3)\<rparr>"

text \<open>The same world with another random generator.\<close>

definition sample_env2 :: env where
  "sample_env2 = sample_env\<lparr>random_raw := (\<lambda>k. 50)\<rparr>"

section \<open>Properties of the program\<close>

subsection \<open>One iteration\<close>

lemma dict_get_record: "is_record m \<Longrightarrow> dict_get m k = Inr (field m k)"
  by (cases m) simp_all

lemma fetch_and_classify_eq:
  "fetch_and_classify E ty mid url m st =
     (case fetch_outcome E ty url (clock st) of
        Inr (has_match, pub_seen, pub_parsed) \<Rightarrow>
          if has_match then
            st\<lparr>trace := trace st @ [Fetch (clock st) url],
               processed := processed st + 1,
               matched_count := matched_count st + 1,
               with_events := with_events st @ [m]\<rparr>
          else
            st\<lparr>trace := trace st @ [Fetch (clock st) url],
               processed := processed st + 1,
               no_match_count := no_match_count st + 1,
               without_events := without_events st @ [m]\<rparr>
      | Inl e \<Rightarrow>
          st\<lparr>trace := trace st @ [Fetch (clock st) url],
             processed := processed st + 1,
             error_count := error_count st + 1,
             errors := errors st @
               [JObj [(''meetupID'', mid), (''meetupUrlRss'', url), (''error'', JStr (error_msg e))]],
             without_events := without_events st @ [m]\<rparr>)"
  by (simp add: fetch_and_classify_def fetch_outcome_def http_get_bytes_def
      split: sum.splits prod.splits)

lemma body_record:
  "is_record m \<Longrightarrow>
   body E ty idx m st =
     Inr (if \<not> truthy (field m ''meetupUrlRss'')
          then missing_url (resolve_id idx (field m ''meetupID'') (field m ''meetupName'')) m st
          else sleep_random E (fetch_and_classify E ty
                 (resolve_id idx (field m ''meetupID'') (field m ''meetupName''))
                 (field m ''meetupUrlRss'') m st))"
  by (simp add: body_def dict_get_record)

lemma body_not_record: "\<not> is_record m \<Longrightarrow> \<exists>e. body E ty idx m st = Inl e"
  by (cases m) (simp_all add: body_def)

lemma body_Inr_record: "body E ty idx m st = Inr st' \<Longrightarrow> is_record m"
  using body_not_record [of m E ty idx st] by auto

lemma loop_append:
  "loop E ty idx (xs @ ys) st =
     (case loop E ty idx xs st of
        (s, None) \<Rightarrow> loop E ty (idx + length xs) ys s
      | (s, Some e) \<Rightarrow> (s, Some e))"
  by (induction xs arbitrary: idx st) (auto split: sum.splits)

lemma loop_records:
  "list_all is_record ms \<Longrightarrow> \<exists>st'. loop E ty idx ms st = (st', None)"
  by (induction ms arbitrary: idx st) (auto simp: body_record)

lemma state_after_Suc:
  assumes "list_all is_record ms" and "i < length ms"
  shows "body E ty (Suc i) (ms ! i) (state_after E ty ms i) = Inr (state_after E ty ms (Suc i))"
proof -
  have rec: "list_all is_record (take i ms)"
    using assms(1) by (auto simp: list_all_iff dest: in_set_takeD)
  then obtain s where s: "loop E ty 1 (take i ms) init_state = (s, None)"
    using loop_records by blast
  have mi: "is_record (ms ! i)"
    using assms by (simp add: list_all_length)
  have "take (Suc i) ms = take i ms @ [ms ! i]"
    using assms(2) by (simp add: take_Suc_conv_app_nth)
  then have "loop E ty 1 (take (Suc i) ms) init_state = loop E ty (1 + i) [ms ! i] s"
    using s assms(2) by (simp add: loop_append min_def)
  then show ?thesis
    using s mi by (simp add: state_after_def body_record)
qed



lemma missing_url_fields:
  "with_events (missing_url mid m st) = with_events st"
  "without_events (missing_url mid m st) = without_events st @ [m]"
  "errors (missing_url mid m st) =
     errors st @ [JObj [(''meetupID'', mid), (''error'', JStr ''missing meetupUrlRss'')]]"
  "matched_count (missing_url mid m st) = matched_count st"
  "no_match_count (missing_url mid m st) = no_match_count st"
  "error_count (missing_url mid m st) = Suc (error_count st)"
  "processed (missing_url mid m st) = Suc (processed st)"
  "trace (missing_url mid m st) = trace st"
  "clock (missing_url mid m st) = clock st"
  "draws (missing_url mid m st) = draws st"
  by (simp_all add: missing_url_def)

lemma sleep_random_fields:
  "with_events (sleep_random E st) = with_events st"
  "without_events (sleep_random E st) = without_events st"
  "errors (sleep_random E st) = errors st"
  "matched_count (sleep_random E st) = matched_count st"
  "no_match_count (sleep_random E st) = no_match_count st"
  "error_count (sleep_random E st) = error_count st"
  "processed (sleep_random E st) = processed st"
  "trace (sleep_random E st) =
     trace st @ [Sleep (randint E (draws st) SLEEP_MIN_SECS SLEEP_MAX_SECS)]"
  "clock (sleep_random E st) = clock st + randint E (draws st) SLEEP_MIN_SECS SLEEP_MAX_SECS"
  "draws (sleep_random E st) = Suc (draws st)"
  by (simp_all add: sleep_random_def Let_def)

lemma fetch_world:
  "trace (fetch_and_classify E ty mid url m st) = trace st @ [Fetch (clock st) url]"
  "clock (fetch_and_classify E ty mid url m st) = clock st"
  "draws (fetch_and_classify E ty mid url m st) = draws st"
  "processed (fetch_and_classify E ty mid url m st) = Suc (processed st)"
  by (simp_all add: fetch_and_classify_eq split: sum.splits prod.splits)

lemma fetch_match:
  assumes "fetch_outcome E ty url (clock st) = Inr (True, seen, parsed)"
  shows "with_events (fetch_and_classify E ty mid url m st) = with_events st @ [m]"
    and "without_events (fetch_and_classify E ty mid url m st) = without_events st"
    and "errors (fetch_and_classify E ty mid url m st) = errors st"
    and "matched_count (fetch_and_classify E ty mid url m st) = Suc (matched_count st)"
    and "no_match_count (fetch_and_classify E ty mid url m st) = no_match_count st"
    and "error_count (fetch_and_classify E ty mid url m st) = error_count st"
  using assms by (simp_all add: fetch_and_classify_eq)

lemma fetch_no_match:
  assumes "fetch_outcome E ty url (clock st) = Inr (False, seen, parsed)"
  shows "with_events (fetch_and_classify E ty mid url m st) = with_events st"
    and "without_events (fetch_and_classify E ty mid url m st) = without_events st @ [m]"
    and "errors (fetch_and_classify E ty mid url m st) = errors st"
    and "matched_count (fetch_and_classify E ty mid url m st) = matched_count st"
    and "no_match_count (fetch_and_classify E ty mid url m st) = Suc (no_match_count st)"
    and "error_count (fetch_and_classify E ty mid url m st) = error_count st"
  using assms by (simp_all add: fetch_and_classify_eq)

lemma fetch_error:
  assumes "fetch_outcome E ty url (clock st) = Inl e"
  shows "with_events (fetch_and_classify E ty mid url m st) = with_events st"
    and "without_events (fetch_and_classify E ty mid url m st) = without_events st @ [m]"
    and "errors (fetch_and_classify E ty mid url m st) =
           errors st @ [JObj [(''meetupID'', mid), (''meetupUrlRss'', url),
                              (''error'', JStr (error_msg e))]]"
    and "matched_count (fetch_and_classify E ty mid url m st) = matched_count st"
    and "no_match_count (fetch_and_classify E ty mid url m st) = no_match_count st"
    and "error_count (fetch_and_classify E ty mid url m st) = Suc (error_count st)"
  using assms by (simp_all add: fetch_and_classify_eq)


lemma body_buckets:
  assumes "body E ty idx m st = Inr st'"
  shows "(with_events st' = with_events st @ [m] \<and> without_events st' = without_events st \<and>
          errors st' = errors st \<and> matched_count st' = Suc (matched_count st) \<and>
          no_match_count st' = no_match_count st \<and> error_count st' = error_count st \<and>
          processed st' = Suc (processed st))
       \<or> (with_events st' = with_events st \<and> without_events st' = without_events st @ [m] \<and>
          errors st' = errors st \<and> matched_count st' = matched_count st \<and>
          no_match_count st' = Suc (no_match_count st) \<and> error_count st' = error_count st \<and>
          processed st' = Suc (processed st))
       \<or> (with_events st' = with_events st \<and> without_events st' = without_events st @ [m] \<and>
          (\<exists>entry. errors st' = errors st @ [entry]) \<and> matched_count st' = matched_count st \<and>
          no_match_count st' = no_match_count st \<and> error_count st' = Suc (error_count st) \<and>
          processed st' = Suc (processed st))"
proof -
  have r: "is_record m" using assms by (rule body_Inr_record)
  let ?url = "field m ''meetupUrlRss''"
  let ?mid = "resolve_id idx (field m ''meetupID'') (field m ''meetupName'')"
  show ?thesis
  proof (cases "truthy ?url")
    case False
    then have "st' = missing_url ?mid m st"
      using assms r by (simp add: body_record)
    then show ?thesis by (simp add: missing_url_fields)
  next
    case True
    then have st': "st' = sleep_random E (fetch_and_classify E ty ?mid ?url m st)"
      using assms r by (simp add: body_record)
    show ?thesis
    proof (cases "fetch_outcome E ty ?url (clock st)")
      case (Inl e)
      show ?thesis
        unfolding st' by (simp add: sleep_random_fields fetch_error [OF Inl] fetch_world)
    next
      case (Inr res)
      obtain hm seen parsed where res: "res = (hm, seen, parsed)" by (cases res)
      show ?thesis
      proof (cases hm)
        case True
        with Inr res have o: "fetch_outcome E ty ?url (clock st) = Inr (True, seen, parsed)" by simp
        show ?thesis
          unfolding st' by (simp add: sleep_random_fields fetch_match [OF o] fetch_world)
      next
        case False
        with Inr res have o: "fetch_outcome E ty ?url (clock st) = Inr (False, seen, parsed)" by simp
        show ?thesis
          unfolding st' by (simp add: sleep_random_fields fetch_no_match [OF o] fetch_world)
      qed
    qed
  qed
qed

lemma loop_tally:
  assumes "loop E ty idx ms st = (st', None)"
  shows "mset (with_events st') + mset (without_events st')
           = mset (with_events st) + mset (without_events st) + mset ms"
    and "length (with_events st') + length (without_events st')
           = length (with_events st) + length (without_events st) + length ms"
    and "matched_count st' + length (with_events st) = matched_count st + length (with_events st')"
    and "no_match_count st' + error_count st' + length (without_events st)
           = no_match_count st + error_count st + length (without_events st')"
    and "error_count st' + length (errors st) = error_count st + length (errors st')"
    and "processed st' = processed st + length ms"
  using assms
proof (induction ms arbitrary: idx st)
  case Nil
  {
    case 1 then show ?case by simp
  next
    case 2 then show ?case by simp
  next
    case 3 then show ?case by simp
  next
    case 4 then show ?case by simp
  next
    case 5 then show ?case by simp
  next
    case 6 then show ?case by simp
  }
next
  case (Cons m ms)
  {
    case 1
    then obtain s where b: "body E ty idx m st = Inr s" and l: "loop E ty (Suc idx) ms s = (st', None)"
      by (auto split: sum.splits)
    show ?case using body_buckets [OF b] Cons.IH(1) [OF l] by auto
  next
    case 2
    then obtain s where b: "body E ty idx m st = Inr s" and l: "loop E ty (Suc idx) ms s = (st', None)"
      by (auto split: sum.splits)
    show ?case using body_buckets [OF b] Cons.IH(2) [OF l] by auto
  next
    case 3
    then obtain s where b: "body E ty idx m st = Inr s" and l: "loop E ty (Suc idx) ms s = (st', None)"
      by (auto split: sum.splits)
    show ?case using body_buckets [OF b] Cons.IH(3) [OF l] by auto
  next
    case 4
    then obtain s where b: "body E ty idx m st = Inr s" and l: "loop E ty (Suc idx) ms s = (st', None)"
      by (auto split: sum.splits)
    show ?case using body_buckets [OF b] Cons.IH(4) [OF l] by auto
  next
    case 5
    then obtain s where b: "body E ty idx m st = Inr s" and l: "loop E ty (Suc idx) ms s = (st', None)"
      by (auto split: sum.splits)
    show ?case using body_buckets [OF b] Cons.IH(5) [OF l] by auto
  next
    case 6
    then obtain s where b: "body E ty idx m st = Inr s" and l: "loop E ty (Suc idx) ms s = (st', None)"
      by (auto split: sum.splits)
    show ?case using body_buckets [OF b] Cons.IH(6) [OF l] by auto
  }
qed

lemma state_after_full:
  "loop E ty 1 ms init_state = (st', r) \<Longrightarrow> state_after E ty ms (length ms) = st'"
  by (simp add: state_after_def)

text \<open>
  C1. Over a list of records the loop never raises, and each record is appended to
  exactly one bucket: the buckets together hold the input records with their
  multiplicities, their lengths add up to the length of the input, the counters agree
  with the lists (the records counted as errors are among the unmatched), and whenever
  an iteration does not append its record to the with-events bucket it appends it to
  the without-events bucket; an iteration that appends to with-events adds no error.
\<close>

theorem every_record_in_one_bucket:
  assumes "list_all is_record ms"
  shows "\<exists>st'. loop E ty 1 ms init_state = (st', None) \<and>
           mset (with_events st') + mset (without_events st') = mset ms \<and>
           length (with_events st') + length (without_events st') = length ms \<and>
           matched_count st' = length (with_events st') \<and>
           no_match_count st' + error_count st' = length (without_events st') \<and>
           error_count st' = length (errors st') \<and>
           (\<forall>i<length ms.
              (with_events (state_after E ty ms (Suc i)) = with_events (state_after E ty ms i) @ [ms ! i] \<and>
               without_events (state_after E ty ms (Suc i)) = without_events (state_after E ty ms i) \<and>
               errors (state_after E ty ms (Suc i)) = errors (state_after E ty ms i))
            \<or> (with_events (state_after E ty ms (Suc i)) = with_events (state_after E ty ms i) \<and>
               without_events (state_after E ty ms (Suc i)) =
                 without_events (state_after E ty ms i) @ [ms ! i]))"
proof -
  obtain st' where l: "loop E ty 1 ms init_state = (st', None)"
    using loop_records [OF assms] by blast
  have a: "mset (with_events st') + mset (without_events st') = mset ms"
    using loop_tally(1) [OF l] by (simp add: init_state_def)
  have b: "length (with_events st') + length (without_events st') = length ms"
    using loop_tally(2) [OF l] by (simp add: init_state_def)
  have c: "matched_count st' = length (with_events st')"
    using loop_tally(3) [OF l] by (simp add: init_state_def)
  have d: "no_match_count st' + error_count st' = length (without_events st')"
    using loop_tally(4) [OF l] by (simp add: init_state_def)
  have e: "error_count st' = length (errors st')"
    using loop_tally(5) [OF l] by (simp add: init_state_def)
  have f: "(with_events (state_after E ty ms (Suc i)) = with_events (state_after E ty ms i) @ [ms ! i] \<and>
               without_events (state_after E ty ms (Suc i)) = without_events (state_after E ty ms i) \<and>
               errors (state_after E ty ms (Suc i)) = errors (state_after E ty ms i))
            \<or> (with_events (state_after E ty ms (Suc i)) = with_events (state_after E ty ms i) \<and>
               without_events (state_after E ty ms (Suc i)) =
                 without_events (state_after E ty ms i) @ [ms ! i])"
    if "i < length ms" for i
    using body_buckets [OF state_after_Suc [OF assms that, of E ty]] by blast
  show ?thesis
    using l a b c d e f by blast
qed

theorem every_record_in_one_bucket_witness:
  "list_all is_record sample_meetups \<and>
   (\<exists>st'. loop sample_env 2026 1 sample_meetups init_state = (st', None) \<and>
      mset (with_events st') + mset (without_events st') = mset sample_meetups \<and>
      length (with_events st') + length (without_events st') = 4 \<and>
      error_count st' = length (errors st'))"
proof -
  have h: "list_all is_record sample_meetups" by code_simp
  have n: "length sample_meetups = 4" by code_simp
  show ?thesis
    using h every_record_in_one_bucket [OF h, of sample_env 2026] unfolding n by blast
qed

subsection \<open>The classifier\<close>

lemma pubdate_of_Some:
  "pubdate_of item = Some pub \<longleftrightarrow> ET_findtext ''pubDate'' item = Some pub \<and> pub \<noteq> []"
  by (auto simp: pubdate_of_def split: option.splits)

lemma item_year_Some:
  "item_year E item = Some y \<longleftrightarrow>
     (\<exists>pub dt. ET_findtext ''pubDate'' item = Some pub \<and> pub \<noteq> [] \<and>
        parsedate_to_datetime E pub = Some dt \<and> year dt = y)"
  by (auto simp: item_year_def pubdate_of_def split: option.splits)

lemma item_year_pubdate: "item_year E item \<noteq> None \<Longrightarrow> pubdate_of item \<noteq> None"
  by (auto simp: item_year_def split: option.splits)

lemma scan_items_step:
  "scan_items (parsedate_to_datetime E) ty (item # items) (hm, seen, parsed) =
     scan_items (parsedate_to_datetime E) ty items
       (hm \<or> item_year E item = Some ty,
        seen + (if pubdate_of item \<noteq> None then 1 else 0),
        parsed + (if item_year E item \<noteq> None then 1 else 0))"
  by (auto simp: item_year_def pubdate_of_def split: option.splits)

lemma scan_items_eq:
  "scan_items (parsedate_to_datetime E) ty items (hm, seen, parsed) =
     (hm \<or> (\<exists>item\<in>set items. item_year E item = Some ty),
      seen + length (filter (\<lambda>item. pubdate_of item \<noteq> None) items),
      parsed + length (filter (\<lambda>item. item_year E item \<noteq> None) items))"
proof (induction items arbitrary: hm seen parsed)
  case Nil
  show ?case by simp
next
  case (Cons item items)
  show ?case
    unfolding scan_items_step Cons.IH by auto
qed

lemma rss_no_channel:
  "ET_fromstring E b = Inr root \<Longrightarrow> ET_find ''channel'' root = None \<Longrightarrow>
   rss_has_pubdate_year E b ty = Inr (False, 0, 0)"
  by (simp add: rss_has_pubdate_year_def)

lemma rss_channel:
  "ET_fromstring E b = Inr root \<Longrightarrow> ET_find ''channel'' root = Some ch \<Longrightarrow>
   rss_has_pubdate_year E b ty =
     Inr (\<exists>item\<in>set (ET_findall ''item'' ch). item_year E item = Some ty,
          length (filter (\<lambda>item. pubdate_of item \<noteq> None) (ET_findall ''item'' ch)),
          length (filter (\<lambda>item. item_year E item \<noteq> None) (ET_findall ''item'' ch)))"
  by (simp add: rss_has_pubdate_year_def scan_items_eq)

lemma rss_parse_error:
  "ET_fromstring E b = Inl e \<Longrightarrow> rss_has_pubdate_year E b ty = Inl e"
  by (simp add: rss_has_pubdate_year_def)

lemma filter_length_less:
  assumes "x \<in> set xs" "P x" "\<not> Q x" "\<And>y. Q y \<Longrightarrow> P y"
  shows "length (filter Q xs) < length (filter P xs)"
proof -
  have "filter Q xs = filter Q (filter P xs)"
    using assms(4) by (auto intro: filter_cong)
  moreover have "x \<in> set (filter P xs)" using assms by simp
  ultimately show ?thesis
    using assms(3) length_filter_less [of x "filter P xs" Q] by simp
qed

text \<open>
  C2. On a byte string that the XML parser accepts, the classifier raises nothing.
  Without a \<^verbatim>\<open>channel\<close> child of the root it returns \<open>(False, 0, 0)\<close>. With
  one, \<open>has_match\<close> is true exactly when some \<^verbatim>\<open>item\<close> child of the channel has
  a publication date (the non-empty text of its first \<^verbatim>\<open>pubDate\<close> child) that
  parses to a datetime of the target year.
\<close>

theorem classifier_matches_iff:
  assumes "ET_fromstring E xml_bytes = Inr root"
  shows "(ET_find ''channel'' root = None \<longrightarrow>
            rss_has_pubdate_year E xml_bytes ty = Inr (False, 0, 0)) \<and>
         (\<forall>channel. ET_find ''channel'' root = Some channel \<longrightarrow>
            (\<exists>has_match seen parsed.
               rss_has_pubdate_year E xml_bytes ty = Inr (has_match, seen, parsed) \<and>
               (has_match \<longleftrightarrow>
                  (\<exists>item\<in>set (ET_findall ''item'' channel). \<exists>pub dt.
                     ET_findtext ''pubDate'' item = Some pub \<and> pub \<noteq> [] \<and>
                     parsedate_to_datetime E pub = Some dt \<and> year dt = ty))))"
proof (intro conjI impI allI)
  assume "ET_find ''channel'' root = None"
  then show "rss_has_pubdate_year E xml_bytes ty = Inr (False, 0, 0)"
    using assms by (rule rss_no_channel [rotated])
next
  fix channel
  assume ch: "ET_find ''channel'' root = Some channel"
  show "\<exists>has_match seen parsed.
          rss_has_pubdate_year E xml_bytes ty = Inr (has_match, seen, parsed) \<and>
          (has_match \<longleftrightarrow>
             (\<exists>item\<in>set (ET_findall ''item'' channel). \<exists>pub dt.
                ET_findtext ''pubDate'' item = Some pub \<and> pub \<noteq> [] \<and>
                parsedate_to_datetime E pub = Some dt \<and> year dt = ty))"
    unfolding rss_channel [OF assms ch] item_year_Some by blast
qed


theorem classifier_matches_iff_witness:
  "ET_fromstring sample_env feed_hit = Inr tree_hit \<and>
   ET_find ''channel'' tree_hit = Some channel_hit \<and>
   rss_has_pubdate_year sample_env feed_hit 2026 = Inr (True, 1, 1) \<and>
   (\<exists>item\<in>set (ET_findall ''item'' channel_hit). \<exists>pub dt.
      ET_findtext ''pubDate'' item = Some pub \<and> pub \<noteq> [] \<and>
      parsedate_to_datetime sample_env pub = Some dt \<and> year dt = 2026) \<and>
   ET_fromstring sample_env feed_atom = Inr tree_atom \<and>
   ET_find ''channel'' tree_atom = None \<and>
   rss_has_pubdate_year sample_env feed_atom 2026 = Inr (False, 0, 0)"
proof -
  have h: "ET_fromstring sample_env feed_hit = Inr tree_hit" by code_simp
  have c: "ET_find ''channel'' tree_hit = Some channel_hit" by code_simp
  have v: "rss_has_pubdate_year sample_env feed_hit 2026 = Inr (True, 1, 1)" by code_simp
  have h': "ET_fromstring sample_env feed_atom = Inr tree_atom" by code_simp
  have c': "ET_find ''channel'' tree_atom = None" by code_simp
  have "\<exists>item\<in>set (ET_findall ''item'' channel_hit). \<exists>pub dt.
      ET_findtext ''pubDate'' item = Some pub \<and> pub \<noteq> [] \<and>
      parsedate_to_datetime sample_env pub = Some dt \<and> year dt = 2026"
    using classifier_matches_iff [OF h, of 2026] c v by simp
  moreover have "rss_has_pubdate_year sample_env feed_atom 2026 = Inr (False, 0, 0)"
    using classifier_matches_iff [OF h', of 2026] c' by simp
  ultimately show ?thesis using h c v h' c' by simp
qed

text \<open>
  C3. When an item of the channel has a date text that is present and not empty but
  does not parse, the classifier still returns a result: the item is among those
  counted in \<open>pubdates_seen\<close> and not among those counted in \<open>pubdates_parsed\<close>,
  so parsed is below seen; \<open>has_match\<close> depends on the other items only; and when
  no other item matches, a record whose feed is this document is appended to the
  without-events bucket, with no error entry.
\<close>

theorem malformed_date_is_skipped:
  assumes "ET_fromstring E xml_bytes = Inr root"
    and "ET_find ''channel'' root = Some channel"
    and "item \<in> set (ET_findall ''item'' channel)"
    and "ET_findtext ''pubDate'' item = Some pub" and "pub \<noteq> []"
    and "parsedate_to_datetime E pub = None"
  shows "\<exists>has_match seen parsed.
           rss_has_pubdate_year E xml_bytes ty = Inr (has_match, seen, parsed) \<and>
           seen = length (filter (\<lambda>i. pubdate_of i \<noteq> None) (ET_findall ''item'' channel)) \<and>
           parsed = length (filter (\<lambda>i. item_year E i \<noteq> None) (ET_findall ''item'' channel)) \<and>
           pubdate_of item \<noteq> None \<and> item_year E item = None \<and>
           parsed < seen \<and>
           (has_match \<longleftrightarrow>
              (\<exists>other\<in>set (ET_findall ''item'' channel) - {item}. item_year E other = Some ty)) \<and>
           (is_record m \<and> truthy (field m ''meetupUrlRss'') \<and>
            urlopen E (clock st) (field m ''meetupUrlRss'') = Inr xml_bytes \<and> \<not> has_match \<longrightarrow>
              (\<exists>st'. body E ty idx m st = Inr st' \<and>
                 without_events st' = without_events st @ [m] \<and>
                 with_events st' = with_events st \<and>
                 errors st' = errors st \<and>
                 no_match_count st' = Suc (no_match_count st) \<and>
                 error_count st' = error_count st))"
proof -
  let ?items = "ET_findall ''item'' channel"
  let ?hm = "\<exists>i\<in>set ?items. item_year E i = Some ty"
  let ?seen = "length (filter (\<lambda>i. pubdate_of i \<noteq> None) ?items)"
  let ?parsed = "length (filter (\<lambda>i. item_year E i \<noteq> None) ?items)"
  have r: "rss_has_pubdate_year E xml_bytes ty = Inr (?hm, ?seen, ?parsed)"
    using assms(1,2) by (rule rss_channel)
  have p: "pubdate_of item \<noteq> None"
    using assms(4,5) by (simp add: pubdate_of_def)
  have y: "item_year E item = None"
    using assms(4,5,6) by (simp add: item_year_def pubdate_of_def)
  have lt: "?parsed < ?seen"
  proof (rule filter_length_less [of item])
    show "item \<in> set ?items" by (rule assms(3))
    show "pubdate_of item \<noteq> None" by (rule p)
    show "\<not> item_year E item \<noteq> None" using y by simp
    show "pubdate_of i \<noteq> None" if "item_year E i \<noteq> None" for i
      using that by (rule item_year_pubdate)
  qed
  have hm: "?hm \<longleftrightarrow> (\<exists>other\<in>set ?items - {item}. item_year E other = Some ty)"
    using y by auto
  have route: "\<exists>st'. body E ty idx m st = Inr st' \<and>
                 without_events st' = without_events st @ [m] \<and>
                 with_events st' = with_events st \<and>
                 errors st' = errors st \<and>
                 no_match_count st' = Suc (no_match_count st) \<and>
                 error_count st' = error_count st"
    if m: "is_record m" "truthy (field m ''meetupUrlRss'')"
      and u: "urlopen E (clock st) (field m ''meetupUrlRss'') = Inr xml_bytes" and n: "\<not> ?hm"
  proof -
    have o: "fetch_outcome E ty (field m ''meetupUrlRss'') (clock st) = Inr (False, ?seen, ?parsed)"
      using u r n by (simp add: fetch_outcome_def)
    show ?thesis
      using m by (simp add: body_record sleep_random_fields fetch_no_match [OF o])
  qed
  show ?thesis
    using r p y lt hm route by blast
qed


theorem malformed_date_is_skipped_witness:
  "ET_fromstring sample_env feed_mixed = Inr tree_mixed \<and>
   ET_find ''channel'' tree_mixed = Some channel_mixed \<and>
   item_malformed \<in> set (ET_findall ''item'' channel_mixed) \<and>
   ET_findtext ''pubDate'' item_malformed = Some ''next Tuesday'' \<and>
   parsedate_to_datetime sample_env ''next Tuesday'' = None \<and>
   rss_has_pubdate_year sample_env feed_mixed 2026 = Inr (False, 2, 1) \<and>
   is_record r_berlin \<and> truthy (field r_berlin ''meetupUrlRss'') \<and>
   urlopen sample_env (clock init_state) (field r_berlin ''meetupUrlRss'') = Inr feed_mixed \<and>
   (\<exists>st'. body sample_env 2026 4 r_berlin init_state = Inr st' \<and>
      without_events st' = without_events init_state @ [r_berlin] \<and>
      with_events st' = with_events init_state \<and>
      errors st' = errors init_state)"
proof -
  have h1: "ET_fromstring sample_env feed_mixed = Inr tree_mixed" by code_simp
  have h2: "ET_find ''channel'' tree_mixed = Some channel_mixed" by code_simp
  have h3: "item_malformed \<in> set (ET_findall ''item'' channel_mixed)" by code_simp
  have h4: "ET_findtext ''pubDate'' item_malformed = Some ''next Tuesday''" by code_simp
  have h5: "''next Tuesday'' \<noteq> []" by simp
  have h6: "parsedate_to_datetime sample_env ''next Tuesday'' = None" by code_simp
  have v: "rss_has_pubdate_year sample_env feed_mixed 2026 = Inr (False, 2, 1)" by code_simp
  have m1: "is_record r_berlin" by code_simp
  have m2: "truthy (field r_berlin ''meetupUrlRss'')" by code_simp
  have m3: "urlopen sample_env (clock init_state) (field r_berlin ''meetupUrlRss'') = Inr feed_mixed"
    by code_simp
  have "\<exists>st'. body sample_env 2026 4 r_berlin init_state = Inr st' \<and>
      without_events st' = without_events init_state @ [r_berlin] \<and>
      with_events st' = with_events init_state \<and>
      errors st' = errors init_state"
    using malformed_date_is_skipped [OF h1 h2 h3 h4 h5 h6, of 2026 r_berlin init_state 4]
      v m1 m2 m3 by auto
  then show ?thesis
    using h1 h2 h3 h4 h6 v m1 m2 m3 by blast
qed

subsection \<open>Empty publication dates\<close>

lemma findtext_empty:
  assumes "ET_find t item = Some c" and "text_of c = None \<or> text_of c = Some []"
  shows "ET_findtext t item = Some []"
  using assms by (auto simp: ET_findtext_def)

lemma findtext_absent: "ET_find t item = None \<Longrightarrow> ET_findtext t item = None"
  by (simp add: ET_findtext_def)

lemma scan_items_cong:
  assumes "\<And>s. s \<noteq> [] \<Longrightarrow> pd' s = pd s"
  shows "scan_items pd' ty items acc = scan_items pd ty items acc"
proof (induction items arbitrary: acc)
  case Nil
  show ?case by simp
next
  case (Cons item items)
  obtain hm seen parsed where acc: "acc = (hm, seen, parsed)" by (cases acc)
  show ?case
    unfolding acc by (simp add: Cons.IH assms split: option.splits)
qed

text \<open>
  C10. An item whose first \<^verbatim>\<open>pubDate\<close> child has no text, or the empty text,
  is classified as an item without any \<^verbatim>\<open>pubDate\<close> child: the feed gives the
  result of the feed in which that item has no \<^verbatim>\<open>pubDate\<close>, the item adds
  nothing to either count nor to \<open>has_match\<close>, and the result does not depend on
  what the date parser would make of the empty string.
\<close>

theorem empty_pubdate_as_absent:
  assumes "ET_fromstring E xml_bytes = Inr root"
    and "ET_find ''channel'' root = Some channel"
    and "ET_findall ''item'' channel = pre @ item # post"
    and "ET_find ''pubDate'' item = Some date_elem"
    and "text_of date_elem = None \<or> text_of date_elem = Some []"
    and "ET_fromstring E xml_bytes' = Inr root'"
    and "ET_find ''channel'' root' = Some channel'"
    and "ET_findall ''item'' channel' = pre @ item' # post"
    and "ET_find ''pubDate'' item' = None"
  shows "rss_has_pubdate_year E xml_bytes ty = rss_has_pubdate_year E xml_bytes' ty \<and>
         rss_has_pubdate_year E xml_bytes ty =
           Inr (\<exists>i\<in>set (pre @ post). item_year E i = Some ty,
                length (filter (\<lambda>i. pubdate_of i \<noteq> None) (pre @ post)),
                length (filter (\<lambda>i. item_year E i \<noteq> None) (pre @ post))) \<and>
         ((\<forall>s. s \<noteq> [] \<longrightarrow> parse' s = parsedate_to_datetime E s) \<longrightarrow>
            rss_has_pubdate_year (E\<lparr>parsedate_to_datetime := parse'\<rparr>) xml_bytes ty =
            rss_has_pubdate_year E xml_bytes ty)"
proof -
  have e: "pubdate_of item = None" "item_year E item = None"
    using findtext_empty [OF assms(4,5)] by (simp_all add: pubdate_of_def item_year_def)
  have a: "pubdate_of item' = None" "item_year E item' = None"
    using findtext_absent [OF assms(9)] by (simp_all add: pubdate_of_def item_year_def)
  have 1: "rss_has_pubdate_year E xml_bytes ty =
           Inr (\<exists>i\<in>set (pre @ post). item_year E i = Some ty,
                length (filter (\<lambda>i. pubdate_of i \<noteq> None) (pre @ post)),
                length (filter (\<lambda>i. item_year E i \<noteq> None) (pre @ post)))"
    unfolding rss_channel [OF assms(1,2)] assms(3) using e by auto
  have 2: "rss_has_pubdate_year E xml_bytes' ty =
           Inr (\<exists>i\<in>set (pre @ post). item_year E i = Some ty,
                length (filter (\<lambda>i. pubdate_of i \<noteq> None) (pre @ post)),
                length (filter (\<lambda>i. item_year E i \<noteq> None) (pre @ post)))"
    unfolding rss_channel [OF assms(6,7)] assms(8) using a by auto
  have 3: "rss_has_pubdate_year (E\<lparr>parsedate_to_datetime := parse'\<rparr>) xml_bytes ty =
            rss_has_pubdate_year E xml_bytes ty"
    if "\<forall>s. s \<noteq> [] \<longrightarrow> parse' s = parsedate_to_datetime E s"
    using that assms(1,2)
    by (simp add: rss_has_pubdate_year_def scan_items_cong [of parse' "parsedate_to_datetime E"])
  show ?thesis using 1 2 3 by simp
qed


theorem empty_pubdate_as_absent_witness:
  "ET_fromstring sample_env feed_mixed = Inr tree_mixed \<and>
   ET_find ''channel'' tree_mixed = Some channel_mixed \<and>
   ET_findall ''item'' channel_mixed = [item_2019, item_malformed] @ item_empty # [item_titled] \<and>
   ET_find ''pubDate'' item_empty = Some (Element ''pubDate'' None []) \<and>
   text_of (Element ''pubDate'' None []) = None \<and>
   ET_fromstring sample_env feed_plain = Inr tree_plain \<and>
   ET_find ''channel'' tree_plain = Some channel_plain \<and>
   ET_findall ''item'' channel_plain = [item_2019, item_malformed] @ item_bare # [item_titled] \<and>
   ET_find ''pubDate'' item_bare = None \<and>
   rss_has_pubdate_year sample_env feed_mixed 2026 = rss_has_pubdate_year sample_env feed_plain 2026 \<and>
   rss_has_pubdate_year sample_env feed_mixed 2026 = Inr (False, 2, 1) \<and>
   rss_has_pubdate_year
     (sample_env\<lparr>parsedate_to_datetime :=
        (\<lambda>s. if s = [] then Some \<lparr>year = 2026, month = 1, day = 1\<rparr>
             else parsedate_to_datetime sample_env s)\<rparr>) feed_mixed 2026 = Inr (False, 2, 1)"
proof -
  let ?p = "\<lambda>s. if s = [] then Some \<lparr>year = 2026, month = 1, day = 1\<rparr>
             else parsedate_to_datetime sample_env s"
  have h1: "ET_fromstring sample_env feed_mixed = Inr tree_mixed" by code_simp
  have h2: "ET_find ''channel'' tree_mixed = Some channel_mixed" by code_simp
  have h3: "ET_findall ''item'' channel_mixed = [item_2019, item_malformed] @ item_empty # [item_titled]"
    by code_simp
  have h4: "ET_find ''pubDate'' item_empty = Some (Element ''pubDate'' None [])" by code_simp
  have h5: "text_of (Element ''pubDate'' None []) = None \<or> text_of (Element ''pubDate'' None []) = Some []"
    by simp
  have h6: "ET_fromstring sample_env feed_plain = Inr tree_plain" by code_simp
  have h7: "ET_find ''channel'' tree_plain = Some channel_plain" by code_simp
  have h8: "ET_findall ''item'' channel_plain = [item_2019, item_malformed] @ item_bare # [item_titled]"
    by code_simp
  have h9: "ET_find ''pubDate'' item_bare = None" by code_simp
  have v: "rss_has_pubdate_year sample_env feed_mixed 2026 = Inr (False, 2, 1)" by code_simp
  have q: "\<forall>s. s \<noteq> [] \<longrightarrow> ?p s = parsedate_to_datetime sample_env s" by simp
  note t = empty_pubdate_as_absent [OF h1 h2 h3 h4 h5 h6 h7 h8 h9, of 2026 ?p]
  have a: "rss_has_pubdate_year sample_env feed_mixed 2026 = rss_has_pubdate_year sample_env feed_plain 2026"
    using t by blast
  have b: "rss_has_pubdate_year (sample_env\<lparr>parsedate_to_datetime := ?p\<rparr>) feed_mixed 2026
             = Inr (False, 2, 1)"
    using t q v by simp
  show ?thesis
    using h1 h2 h3 h4 h6 h7 h8 h9 a v b by simp
qed

subsection \<open>Missing feed URL, requests and pauses\<close>

text \<open>
  C4. For a record whose \<^verbatim>\<open>meetupUrlRss\<close> is missing or falsy, the iteration
  appends the record to the without-events bucket, appends an error entry made of the
  resolved identifier and the message \<^verbatim>\<open>missing meetupUrlRss\<close>, adds one to the
  error count, leaves the trace as it was (no request is sent), and the loop goes on
  with the next record.
\<close>

theorem missing_url_is_recorded:
  assumes "dict_get m ''meetupUrlRss'' = Inr rss_url" and "\<not> truthy rss_url"
  shows "\<exists>st'. body E ty idx m st = Inr st' \<and>
           without_events st' = without_events st @ [m] \<and>
           errors st' = errors st @
             [JObj [(''meetupID'', resolve_id idx (field m ''meetupID'') (field m ''meetupName'')),
                    (''error'', JStr ''missing meetupUrlRss'')]] \<and>
           error_count st' = Suc (error_count st) \<and>
           with_events st' = with_events st \<and>
           trace st' = trace st \<and>
           loop E ty idx (m # rest) st = loop E ty (Suc idx) rest st'"
proof -
  have r: "is_record m" using assms(1) by (cases m) simp_all
  then have u: "field m ''meetupUrlRss'' = rss_url"
    using assms(1) by (simp add: dict_get_record)
  have b: "body E ty idx m st =
             Inr (missing_url (resolve_id idx (field m ''meetupID'') (field m ''meetupName'')) m st)"
    using r u assms(2) by (simp add: body_record)
  show ?thesis
    unfolding b by (simp add: missing_url_fields b)
qed

theorem missing_url_is_recorded_witness:
  "dict_get r_nofeed ''meetupUrlRss'' = Inr JNull \<and> \<not> truthy JNull \<and>
   (\<exists>st'. body sample_env 2026 2 r_nofeed init_state = Inr st' \<and>
      without_events st' = [r_nofeed] \<and>
      errors st' = [JObj [(''meetupID'', JStr ''No Feed''), (''error'', JStr ''missing meetupUrlRss'')]] \<and>
      error_count st' = 1 \<and> trace st' = [])"
proof -
  have h1: "dict_get r_nofeed ''meetupUrlRss'' = Inr JNull" by code_simp
  have h2: "\<not> truthy JNull" by simp
  have i: "resolve_id 2 (field r_nofeed ''meetupID'') (field r_nofeed ''meetupName'') = JStr ''No Feed''"
    by code_simp
  show ?thesis
    using missing_url_is_recorded [OF h1 h2, of sample_env 2026 2 init_state "[]"] h1 i
    by (auto simp: init_state_def)
qed

lemma sleeps_append: "sleeps (es @ fs) = sleeps es @ sleeps fs"
  by (induction es rule: sleeps.induct) simp_all

lemma randint_range: "a \<le> b \<Longrightarrow> a \<le> randint E k a b \<and> randint E k a b \<le> b"
proof -
  assume "a \<le> b"
  have "random_raw E k mod (b - a + 1) < b - a + 1" by simp
  then show ?thesis using \<open>a \<le> b\<close> unfolding randint_def by linarith
qed

lemma body_trace:
  assumes "is_record m"
  shows "\<exists>st'. body E ty idx m st = Inr st' \<and>
     (if truthy (field m ''meetupUrlRss'')
      then trace st' = trace st @ [Fetch (clock st) (field m ''meetupUrlRss''),
                                    Sleep (randint E (draws st) SLEEP_MIN_SECS SLEEP_MAX_SECS)] \<and>
           clock st' = clock st + randint E (draws st) SLEEP_MIN_SECS SLEEP_MAX_SECS
      else trace st' = trace st \<and> clock st' = clock st)"
  using assms by (simp add: body_record missing_url_fields sleep_random_fields fetch_world)

lemma loop_sleeps:
  assumes "loop E ty idx ms st = (st', None)"
  shows "length (sleeps (trace st')) =
           length (sleeps (trace st)) + length (filter (\<lambda>m. truthy (field m ''meetupUrlRss'')) ms)"
  using assms
proof (induction ms arbitrary: idx st)
  case Nil
  then show ?case by simp
next
  case (Cons m ms)
  then obtain s where b: "body E ty idx m st = Inr s" and l: "loop E ty (Suc idx) ms s = (st', None)"
    by (auto split: sum.splits)
  have r: "is_record m" using b by (rule body_Inr_record)
  have "length (sleeps (trace s)) =
          length (sleeps (trace st)) + (if truthy (field m ''meetupUrlRss'') then 1 else 0)"
    using body_trace [OF r, of E ty idx st] b by (auto simp: sleeps_append)
  then show ?case using Cons.IH [OF l] by simp
qed

text \<open>
  C7, as the code has it. Over a list of records, an iteration that sends a request
  (the feed URL is truthy) ends, whatever the request gave, with one pause of 10 to 60
  seconds, the last event before the next record is taken up; an iteration that skips
  a record without feed URL makes no pause. So a run pauses once per request, not
  once per record.
\<close>

theorem pause_follows_each_request:
  assumes "list_all is_record ms"
  shows "\<exists>st'. loop E ty 1 ms init_state = (st', None) \<and>
           length (sleeps (trace st')) = length (filter (\<lambda>m. truthy (field m ''meetupUrlRss'')) ms) \<and>
           (\<forall>i<length ms.
              if truthy (field (ms ! i) ''meetupUrlRss'')
              then \<exists>s. trace (state_after E ty ms (Suc i)) =
                          trace (state_after E ty ms i) @
                            [Fetch (clock (state_after E ty ms i)) (field (ms ! i) ''meetupUrlRss''),
                             Sleep s] \<and>
                        SLEEP_MIN_SECS \<le> s \<and> s \<le> SLEEP_MAX_SECS \<and>
                        clock (state_after E ty ms (Suc i)) = clock (state_after E ty ms i) + s
              else trace (state_after E ty ms (Suc i)) = trace (state_after E ty ms i) \<and>
                   clock (state_after E ty ms (Suc i)) = clock (state_after E ty ms i))"
proof -
  obtain st' where l: "loop E ty 1 ms init_state = (st', None)"
    using loop_records [OF assms] by blast
  have n: "length (sleeps (trace st')) = length (filter (\<lambda>m. truthy (field m ''meetupUrlRss'')) ms)"
    using loop_sleeps [OF l] by (simp add: init_state_def)
  have rng: "SLEEP_MIN_SECS \<le> randint E k SLEEP_MIN_SECS SLEEP_MAX_SECS \<and>
             randint E k SLEEP_MIN_SECS SLEEP_MAX_SECS \<le> SLEEP_MAX_SECS" for k
    by (rule randint_range) (simp add: SLEEP_MIN_SECS_def SLEEP_MAX_SECS_def)
  have step: "if truthy (field (ms ! i) ''meetupUrlRss'')
              then \<exists>s. trace (state_after E ty ms (Suc i)) =
                          trace (state_after E ty ms i) @
                            [Fetch (clock (state_after E ty ms i)) (field (ms ! i) ''meetupUrlRss''),
                             Sleep s] \<and>
                        SLEEP_MIN_SECS \<le> s \<and> s \<le> SLEEP_MAX_SECS \<and>
                        clock (state_after E ty ms (Suc i)) = clock (state_after E ty ms i) + s
              else trace (state_after E ty ms (Suc i)) = trace (state_after E ty ms i) \<and>
                   clock (state_after E ty ms (Suc i)) = clock (state_after E ty ms i)"
    if i: "i < length ms" for i
  proof -
    have r: "is_record (ms ! i)" using assms i by (simp add: list_all_length)
    show ?thesis
      using body_trace [OF r, of E ty "Suc i" "state_after E ty ms i"]
        state_after_Suc [OF assms i, of E ty] rng
      by (auto split: if_splits)
  qed
  show ?thesis using l n step by blast
qed


theorem pause_follows_each_request_witness:
  "list_all is_record sample_meetups \<and>
   (\<exists>st'. loop sample_env 2026 1 sample_meetups init_state = (st', None) \<and>
      length (sleeps (trace st')) = 3) \<and>
   truthy (field (sample_meetups ! 0) ''meetupUrlRss'') \<and>
   trace (state_after sample_env 2026 sample_meetups 1) =
     [Fetch 0 (JStr ''https://z.example/rss''), Sleep 13] \<and>
   \<not> truthy (field (sample_meetups ! 1) ''meetupUrlRss'') \<and>
   trace (state_after sample_env 2026 sample_meetups 2) =
     trace (state_after sample_env 2026 sample_meetups 1)"
proof -
  have h: "list_all is_record sample_meetups" by code_simp
  have n: "length (filter (\<lambda>m. truthy (field m ''meetupUrlRss'')) sample_meetups) = 3"
    by code_simp
  have u0: "truthy (field (sample_meetups ! 0) ''meetupUrlRss'')" by code_simp
  have u1: "\<not> truthy (field (sample_meetups ! 1) ''meetupUrlRss'')" by code_simp
  have t1: "trace (state_after sample_env 2026 sample_meetups 1) =
     [Fetch 0 (JStr ''https://z.example/rss''), Sleep 13]" by code_simp
  have len: "1 < length sample_meetups" by code_simp
  note t = pause_follows_each_request [OF h, of sample_env 2026]
  from t n have a: "\<exists>st'. loop sample_env 2026 1 sample_meetups init_state = (st', None) \<and>
      length (sleeps (trace st')) = 3" by auto
  from t len u1 have b: "trace (state_after sample_env 2026 sample_meetups 2) =
     trace (state_after sample_env 2026 sample_meetups 1)"
    by (metis One_nat_def Suc_1)
  show ?thesis using h a u0 t1 u1 b by blast
qed

text \<open>
  The sample run has four records and three pauses: the second record has no feed
  URL, and the request for the third is sent at the time the first pause ended.
\<close>

theorem no_pause_after_missing_url_counterexample:
  "length sample_meetups = 4 \<and>
   \<not> truthy (field (sample_meetups ! 1) ''meetupUrlRss'') \<and>
   fst (main ascii_lower sample_env ''master_meetups.json'' 2026) =
     [Fetch 0 (JStr ''https://z.example/rss''), Sleep 13,
      Fetch 13 (JStr ''https://a.example/rss''), Sleep 20,
      Fetch 33 (JStr ''https://b.example/rss''), Sleep 27] \<and>
   length (sleeps (fst (main ascii_lower sample_env ''master_meetups.json'' 2026))) = 3"
  by code_simp

subsection \<open>Sorting and the outputs\<close>

lemma keys_of_Inr: "keys_of L xs = Inr ks \<Longrightarrow> map (id_key L) xs = map Inr ks"
  by (induction xs arbitrary: ks) (auto split: sum.splits)

lemma list_sort_Inr:
  assumes "list_sort L xs = Inr ys"
  shows "mset ys = mset xs" and "\<exists>ks. map (id_key L) ys = map Inr ks \<and> sorted ks"
proof -
  obtain ks where ks: "keys_of L xs = Inr ks"
    and ys: "ys = map snd (sort_key fst (zip ks xs))"
    using assms by (auto simp: list_sort_def split: sum.splits)
  have m: "map (id_key L) xs = map Inr ks" using ks by (rule keys_of_Inr)
  then have len: "length ks = length xs" by (metis length_map)
  let ?zs = "sort_key fst (zip ks xs)"
  have "mset ys = image_mset snd (mset (zip ks xs))"
    unfolding ys by simp
  also have "\<dots> = mset (map snd (zip ks xs))" by simp
  also have "\<dots> = mset xs" using len by simp
  finally show "mset ys = mset xs" .
  have key: "id_key L (snd z) = Inr (fst z)" if "z \<in> set ?zs" for z
  proof -
    from that have "z \<in> set (zip ks xs)" by simp
    then obtain i where i: "i < length xs" "ks ! i = fst z" "xs ! i = snd z"
      using len by (auto simp: in_set_zip)
    have "id_key L (xs ! i) = map (id_key L) xs ! i" using i(1) by simp
    also have "\<dots> = Inr (ks ! i)" using m i(1) len by simp
    finally show ?thesis using i by simp
  qed
  have "map (id_key L) ys = map Inr (map fst ?zs)"
    unfolding ys using key by simp
  moreover have "sorted (map fst ?zs)" by (rule sorted_sort_key)
  ultimately show "\<exists>ks. map (id_key L) ys = map Inr ks \<and> sorted ks" by blast
qed

lemma main_Inr:
  assumes "main L E p ty = (tr, Inr out)"
  shows "\<exists>meetups ms st. json_load E p = Inr meetups \<and> py_iter meetups = Inr ms \<and>
           loop E ty 1 ms init_state = (st, None) \<and> tr = trace st \<and>
           list_sort L (with_events st) = Inr (out_with out) \<and>
           list_sort L (without_events st) = Inr (out_without out) \<and>
           list_sort L (errors st) = Inr (out_errors out)"
proof -
  obtain meetups where a: "json_load E p = Inr meetups"
    using assms by (cases "json_load E p") (simp_all add: main_def)
  obtain ms where b: "py_iter meetups = Inr ms"
    using assms a by (cases "py_iter meetups") (simp_all add: main_def)
  obtain st r where c: "loop E ty 1 ms init_state = (st, r)"
    by (cases "loop E ty 1 ms init_state")
  have r: "r = None"
    using assms a b c by (cases r) (simp_all add: main_def)
  obtain w where d: "list_sort L (with_events st) = Inr w"
    using assms a b c r by (cases "list_sort L (with_events st)") (simp_all add: main_def)
  obtain wo where e: "list_sort L (without_events st) = Inr wo"
    using assms a b c r d by (cases "list_sort L (without_events st)") (simp_all add: main_def)
  obtain er where f: "list_sort L (errors st) = Inr er"
    using assms a b c r d e by (cases "list_sort L (errors st)") (simp_all add: main_def)
  have "tr = trace st" "out = \<lparr>out_with = w, out_without = wo, out_errors = er\<rparr>"
    using assms a b c r d e f by (simp_all add: main_def)
  then show ?thesis
    using a b c r d e f by simp
qed

lemma id_key_ident:
  assumes "id_key L x = Inr k"
  shows "is_record x" and "str_or_falsy (field x ''meetupID'')" and "k = L (ident x)"
proof -
  show r: "is_record x"
    using assms by (cases x) (simp_all add: id_key_def)
  then have k: "lower L (py_or (field x ''meetupID'') (JStr [])) = Inr k"
    using assms by (simp add: id_key_def dict_get_record)
  show "str_or_falsy (field x ''meetupID'')"
    using k by (cases "field x ''meetupID''") (auto simp: py_or_def split: if_splits)
  show "k = L (ident x)"
    using k by (cases "field x ''meetupID''") (auto simp: py_or_def ident_def split: if_splits)
qed

lemma falsy_ident: "\<not> truthy (field x ''meetupID'') \<Longrightarrow> ident x = []"
  by (cases "field x ''meetupID''") (simp_all add: ident_def)

lemma sorted_empty_key_first:
  assumes "sorted (ks :: string list)" and "i < j" and "j < length ks" and "ks ! j = []"
  shows "ks ! i = []"
proof -
  have "ks ! i \<le> ks ! j" using assms(1,2,3) by (simp add: sorted_nth_mono)
  then show ?thesis using assms(4) by simp
qed

text \<open>
  C6. When \<open>main\<close> writes its outputs, every element of each of the three lists
  is an object whose \<^verbatim>\<open>meetupID\<close> is a string or is missing or falsy, and each
  list is in ascending order of the lower-cased identifiers: for positions
  \<open>i < j\<close>, \<open>L (ident (xs ! i)) \<le> L (ident (xs ! j))\<close>, where \<open>L\<close> is
  \<^verbatim>\<open>str.lower()\<close> and \<open>ident\<close> gives the empty string to an element without
  identifier. Since \<^verbatim>\<open>"".lower()\<close> is empty, such an element has the empty key,
  and so has every element before it: the elements without identifier come first.
\<close>

theorem outputs_sorted_by_identifier:
  assumes "main L E p ty = (tr, Inr out)"
    and "xs = out_with out \<or> xs = out_without out \<or> xs = out_errors out"
  shows "(\<forall>x\<in>set xs. is_record x \<and> str_or_falsy (field x ''meetupID'')) \<and>
         sorted (map (\<lambda>x. L (ident x)) xs) \<and>
         (\<forall>i j. i < j \<and> j < length xs \<longrightarrow> L (ident (xs ! i)) \<le> L (ident (xs ! j))) \<and>
         (\<forall>i j. i < j \<and> j < length xs \<and> \<not> truthy (field (xs ! j) ''meetupID'') \<and> L [] = [] \<longrightarrow>
                ident (xs ! j) = [] \<and> L (ident (xs ! i)) = [])"
proof -
  obtain st :: state where "list_sort L (with_events st) = Inr (out_with out)"
    and "list_sort L (without_events st) = Inr (out_without out)"
    and "list_sort L (errors st) = Inr (out_errors out)"
    using main_Inr [OF assms(1)] by blast
  then obtain zs where "list_sort L zs = Inr xs"
    using assms(2) by blast
  then obtain ks where ks: "map (id_key L) xs = map Inr ks" and s: "sorted ks"
    using list_sort_Inr(2) by blast
  have len: "length ks = length xs" using ks by (metis length_map)
  have nth: "id_key L (xs ! i) = Inr (ks ! i)" if "i < length xs" for i
  proof -
    have "id_key L (xs ! i) = map (id_key L) xs ! i" using that by simp
    also have "\<dots> = Inr (ks ! i)" using ks that len by simp
    finally show ?thesis .
  qed
  have kn: "ks ! i = L (ident (xs ! i))" if "i < length xs" for i
    using id_key_ident(3) [OF nth [OF that]] .
  have 1: "is_record x \<and> str_or_falsy (field x ''meetupID'')" if "x \<in> set xs" for x
  proof -
    from that obtain i where i: "i < length xs" "xs ! i = x"
      unfolding in_set_conv_nth by (elim exE conjE)
    have k: "id_key L x = Inr (ks ! i)" using nth [OF i(1)] unfolding i(2) .
    show ?thesis using id_key_ident(1) [OF k] id_key_ident(2) [OF k] by (rule conjI)
  qed
  have "ks = map (\<lambda>x. L (ident x)) xs"
  proof (rule nth_equalityI)
    show "length ks = length (map (\<lambda>x. L (ident x)) xs)" using len by simp
    show "ks ! i = map (\<lambda>x. L (ident x)) xs ! i" if "i < length ks" for i
    proof -
      have "i < length xs" using that len by simp
      then show ?thesis using kn [of i] by simp
    qed
  qed
  then have 2: "sorted (map (\<lambda>x. L (ident x)) xs)" using s by simp
  have 3: "L (ident (xs ! i)) \<le> L (ident (xs ! j))" if "i < j" "j < length xs" for i j
  proof -
    have "ks ! i \<le> ks ! j" using s that len by (simp add: sorted_nth_mono)
    moreover have "ks ! i = L (ident (xs ! i))" using kn [of i] that by simp
    moreover have "ks ! j = L (ident (xs ! j))" using kn [of j] that by simp
    ultimately show ?thesis by simp
  qed
  have 4: "ident (xs ! j) = [] \<and> L (ident (xs ! i)) = []"
    if "i < j" "j < length xs" "\<not> truthy (field (xs ! j) ''meetupID'')" "L [] = []" for i j
  proof -
    have j: "ident (xs ! j) = []" using that(3) by (rule falsy_ident)
    have "ks ! j = L (ident (xs ! j))" using that(2) by (rule kn)
    then have "ks ! j = []" using j that(4) by simp
    then have "ks ! i = []"
      using sorted_empty_key_first [OF s that(1)] that(2) len by simp
    moreover have "ks ! i = L (ident (xs ! i))" using kn [of i] that(1,2) by simp
    ultimately show ?thesis using j by simp
  qed
  have a1: "\<forall>x\<in>set xs. is_record x \<and> str_or_falsy (field x ''meetupID'')"
    using 1 by (rule ballI)
  have a3: "\<forall>i j. i < j \<and> j < length xs \<longrightarrow> L (ident (xs ! i)) \<le> L (ident (xs ! j))"
  proof (intro allI impI)
    fix i j assume "i < j \<and> j < length xs"
    then show "L (ident (xs ! i)) \<le> L (ident (xs ! j))" using 3 [of i j] by (elim conjE)
  qed
  have a4: "\<forall>i j. i < j \<and> j < length xs \<and> \<not> truthy (field (xs ! j) ''meetupID'') \<and> L [] = [] \<longrightarrow>
                ident (xs ! j) = [] \<and> L (ident (xs ! i)) = []"
  proof (intro allI impI)
    fix i j
    assume "i < j \<and> j < length xs \<and> \<not> truthy (field (xs ! j) ''meetupID'') \<and> L [] = []"
    then show "ident (xs ! j) = [] \<and> L (ident (xs ! i)) = []" using 4 [of i j] by (elim conjE)
  qed
  from a1 2 a3 a4 show ?thesis by (intro conjI)
qed


theorem outputs_sorted_by_identifier_witness:
  "main ascii_lower sample_env ''mixed_case.json'' 2026 =
     ([Fetch 0 (JStr ''https://b.example/rss''), Sleep 13,
       Fetch 13 (JStr ''https://a.example/rss''), Sleep 20,
       Fetch 33 (JStr ''https://f.example/rss''), Sleep 27],
      Inr \<lparr>out_with = [], out_without = [r_nofeed, r_anon, r_austin, r_berlin],
           out_errors =
             [JObj [(''meetupID'', JStr ''austin''), (''meetupUrlRss'', JStr ''https://a.example/rss''),
                    (''error'', JStr ''HTTPError 404: Not Found'')],
              JObj [(''meetupID'', JStr ''No Feed''), (''error'', JStr ''missing meetupUrlRss'')]]\<rparr>) \<and>
   ident r_austin = ''austin'' \<and> ident r_berlin = ''Berlin'' \<and>
   (''Berlin'' :: string) < ''austin'' \<and>
   ascii_lower ''Berlin'' = ''berlin'' \<and>
   ascii_lower (ident ([r_nofeed, r_anon, r_austin, r_berlin] ! 2))
     \<le> ascii_lower (ident ([r_nofeed, r_anon, r_austin, r_berlin] ! 3)) \<and>
   \<not> truthy (field ([r_nofeed, r_anon, r_austin, r_berlin] ! 1) ''meetupID'') \<and>
   ascii_lower [] = [] \<and>
   ident ([r_nofeed, r_anon, r_austin, r_berlin] ! 1) = [] \<and>
   ascii_lower (ident ([r_nofeed, r_anon, r_austin, r_berlin] ! 0)) = []"
proof -
  let ?out = "\<lparr>out_with = [], out_without = [r_nofeed, r_anon, r_austin, r_berlin],
           out_errors =
             [JObj [(''meetupID'', JStr ''austin''), (''meetupUrlRss'', JStr ''https://a.example/rss''),
                    (''error'', JStr ''HTTPError 404: Not Found'')],
              JObj [(''meetupID'', JStr ''No Feed''), (''error'', JStr ''missing meetupUrlRss'')]]\<rparr>"
  let ?xs = "[r_nofeed, r_anon, r_austin, r_berlin]"
  have h: "main ascii_lower sample_env ''mixed_case.json'' 2026 =
     ([Fetch 0 (JStr ''https://b.example/rss''), Sleep 13,
       Fetch 13 (JStr ''https://a.example/rss''), Sleep 20,
       Fetch 33 (JStr ''https://f.example/rss''), Sleep 27], Inr ?out)"
    by code_simp
  have x: "?xs = out_with ?out \<or> ?xs = out_without ?out \<or> ?xs = out_errors ?out" by simp
  have a: "ident r_austin = ''austin''" by code_simp
  have b: "ident r_berlin = ''Berlin''" by code_simp
  have c: "(''Berlin'' :: string) < ''austin''" by code_simp
  have d: "ascii_lower ''Berlin'' = ''berlin''" by code_simp
  have f: "\<not> truthy (field (?xs ! 1) ''meetupID'')" by code_simp
  have e: "ascii_lower [] = []" by code_simp
  note t = outputs_sorted_by_identifier [OF h x]
  have o: "\<forall>i j. i < j \<and> j < length ?xs \<longrightarrow>
             ascii_lower (ident (?xs ! i)) \<le> ascii_lower (ident (?xs ! j))"
    using t by (elim conjE)
  have g: "\<forall>i j. i < j \<and> j < length ?xs \<and> \<not> truthy (field (?xs ! j) ''meetupID'') \<and>
             ascii_lower [] = [] \<longrightarrow>
             ident (?xs ! j) = [] \<and> ascii_lower (ident (?xs ! i)) = []"
    using t by (elim conjE)
  have o23: "ascii_lower (ident (?xs ! 2)) \<le> ascii_lower (ident (?xs ! 3))"
    using o [rule_format, of 2 3] by simp
  have g01: "ident (?xs ! 1) = [] \<and> ascii_lower (ident (?xs ! 0)) = []"
    using g [rule_format, of 0 1] f e by simp
  from h a b c d o23 f e g01 show ?thesis by blast
qed

text \<open>
  C9. The objects written to the with-events and without-events outputs are the
  objects of the input, each exactly as often as it occurs there: every output record
  is an input record, equal to it in every field.
\<close>

theorem records_pass_through_unchanged:
  assumes "main L E p ty = (tr, Inr out)"
    and "json_load E p = Inr meetups" and "py_iter meetups = Inr ms"
  shows "mset (out_with out) + mset (out_without out) = mset ms \<and>
         (\<forall>r\<in>set (out_with out) \<union> set (out_without out).
            \<exists>i<length ms. r = ms ! i \<and> (\<forall>k. dict_get r k = dict_get (ms ! i) k))"
proof -
  obtain st where l: "loop E ty 1 ms init_state = (st, None)"
    and w: "list_sort L (with_events st) = Inr (out_with out)"
    and wo: "list_sort L (without_events st) = Inr (out_without out)"
    using main_Inr [OF assms(1)] assms(2,3) by auto
  have "mset (with_events st) + mset (without_events st) = mset ms"
    using loop_tally(1) [OF l] by (simp add: init_state_def)
  then have m: "mset (out_with out) + mset (out_without out) = mset ms"
    using list_sort_Inr(1) [OF w] list_sort_Inr(1) [OF wo] by simp
  have "\<exists>i<length ms. r = ms ! i \<and> (\<forall>k. dict_get r k = dict_get (ms ! i) k)"
    if "r \<in> set (out_with out) \<union> set (out_without out)" for r
  proof -
    have "r \<in># mset (out_with out) + mset (out_without out)" using that by simp
    then have "r \<in> set ms" unfolding m by simp
    then show ?thesis by (metis in_set_conv_nth)
  qed
  then show ?thesis using m by blast
qed


theorem records_pass_through_unchanged_witness:
  "main ascii_lower sample_env ''master_meetups.json'' 2026 =
     ([Fetch 0 (JStr ''https://z.example/rss''), Sleep 13,
       Fetch 13 (JStr ''https://a.example/rss''), Sleep 20,
       Fetch 33 (JStr ''https://b.example/rss''), Sleep 27],
      Inr \<lparr>out_with = [r_zurich], out_without = [r_nofeed, r_austin, r_berlin],
           out_errors =
             [JObj [(''meetupID'', JStr ''austin''), (''meetupUrlRss'', JStr ''https://a.example/rss''),
                    (''error'', JStr ''HTTPError 404: Not Found'')],
              JObj [(''meetupID'', JStr ''No Feed''), (''error'', JStr ''missing meetupUrlRss'')]]\<rparr>) \<and>
   json_load sample_env ''master_meetups.json'' = Inr (JArr sample_meetups) \<and>
   py_iter (JArr sample_meetups) = Inr sample_meetups \<and>
   mset [r_zurich] + mset [r_nofeed, r_austin, r_berlin] = mset sample_meetups"
proof -
  let ?out = "\<lparr>out_with = [r_zurich], out_without = [r_nofeed, r_austin, r_berlin],
           out_errors =
             [JObj [(''meetupID'', JStr ''austin''), (''meetupUrlRss'', JStr ''https://a.example/rss''),
                    (''error'', JStr ''HTTPError 404: Not Found'')],
              JObj [(''meetupID'', JStr ''No Feed''), (''error'', JStr ''missing meetupUrlRss'')]]\<rparr>"
  have h: "main ascii_lower sample_env ''master_meetups.json'' 2026 =
     ([Fetch 0 (JStr ''https://z.example/rss''), Sleep 13,
       Fetch 13 (JStr ''https://a.example/rss''), Sleep 20,
       Fetch 33 (JStr ''https://b.example/rss''), Sleep 27], Inr ?out)"
    by code_simp
  have l: "json_load sample_env ''master_meetups.json'' = Inr (JArr sample_meetups)" by code_simp
  have i: "py_iter (JArr sample_meetups) = Inr sample_meetups" by simp
  show ?thesis
    using records_pass_through_unchanged [OF h l i] h l i by simp
qed

subsection \<open>Failures\<close>

lemma fetch_outcome_Inl:
  "fetch_outcome E ty u t = Inl e \<longleftrightarrow>
     urlopen E t u = Inl e \<or> (\<exists>b. urlopen E t u = Inr b \<and> ET_fromstring E b = Inl e)"
proof (cases "urlopen E t u")
  case (Inl e')
  then show ?thesis by (simp add: fetch_outcome_def)
next
  case (Inr b)
  show ?thesis
  proof (cases "ET_fromstring E b")
    case (Inl e')
    then show ?thesis using Inr by (simp add: fetch_outcome_def rss_parse_error)
  next
    case root: (Inr root)
    then show ?thesis
      using Inr by (simp add: fetch_outcome_def rss_has_pubdate_year_def split: option.splits)
  qed
qed

text \<open>
  C5, as the code has it. (1) When the request for a record's feed raises, or the
  XML parser raises on what the request returned (a \<^verbatim>\<open>ParseError\<close> or any other
  exception), the exception is caught in the iteration: an error entry with the
  identifier, the feed URL and the handler's message is appended, the record is
  appended to the without-events bucket, and the loop goes on with the next record.
  (2) When the input file cannot be read or decoded, \<open>main\<close> ends with that
  exception, with an empty trace and no output.
\<close>

theorem failures_are_caught_per_record:
  "(is_record m \<and> truthy (field m ''meetupUrlRss'') \<and>
    fetch_outcome E ty (field m ''meetupUrlRss'') (clock st) = Inl e \<longrightarrow>
      (urlopen E (clock st) (field m ''meetupUrlRss'') = Inl e \<or>
       (\<exists>b. urlopen E (clock st) (field m ''meetupUrlRss'') = Inr b \<and>
          ET_fromstring E b = Inl e)) \<and>
      (\<exists>st'. body E ty idx m st = Inr st' \<and>
         errors st' = errors st @
           [JObj [(''meetupID'', resolve_id idx (field m ''meetupID'') (field m ''meetupName'')),
                  (''meetupUrlRss'', field m ''meetupUrlRss''),
                  (''error'', JStr (error_msg e))]] \<and>
         without_events st' = without_events st @ [m] \<and>
         with_events st' = with_events st \<and>
         error_count st' = Suc (error_count st) \<and>
         loop E ty idx (m # rest) st = loop E ty (Suc idx) rest st')) \<and>
   (json_load E p = Inl e' \<longrightarrow> main L E p ty = ([], Inl e'))"
proof (intro conjI impI)
  assume a: "is_record m \<and> truthy (field m ''meetupUrlRss'') \<and>
    fetch_outcome E ty (field m ''meetupUrlRss'') (clock st) = Inl e"
  then show "urlopen E (clock st) (field m ''meetupUrlRss'') = Inl e \<or>
       (\<exists>b. urlopen E (clock st) (field m ''meetupUrlRss'') = Inr b \<and>
          ET_fromstring E b = Inl e)"
    by (simp add: fetch_outcome_Inl)
  from a have o: "fetch_outcome E ty (field m ''meetupUrlRss'') (clock st) = Inl e" by simp
  let ?st' = "sleep_random E (fetch_and_classify E ty
                 (resolve_id idx (field m ''meetupID'') (field m ''meetupName''))
                 (field m ''meetupUrlRss'') m st)"
  have b: "body E ty idx m st = Inr ?st'"
    using a by (simp add: body_record)
  show "\<exists>st'. body E ty idx m st = Inr st' \<and>
         errors st' = errors st @
           [JObj [(''meetupID'', resolve_id idx (field m ''meetupID'') (field m ''meetupName'')),
                  (''meetupUrlRss'', field m ''meetupUrlRss''),
                  (''error'', JStr (error_msg e))]] \<and>
         without_events st' = without_events st @ [m] \<and>
         with_events st' = with_events st \<and>
         error_count st' = Suc (error_count st) \<and>
         loop E ty idx (m # rest) st = loop E ty (Suc idx) rest st'"
    unfolding b by (simp add: b sleep_random_fields fetch_error [OF o])
next
  assume "json_load E p = Inl e'"
  then show "main L E p ty = ([], Inl e')" by (simp add: main_def)
qed

theorem failures_are_caught_per_record_witness:
  "is_record r_austin \<and> truthy (field r_austin ''meetupUrlRss'') \<and>
   fetch_outcome sample_env 2026 (field r_austin ''meetupUrlRss'') (clock init_state)
     = Inl (HTTPError 404 ''Not Found'') \<and>
   (\<exists>st'. body sample_env 2026 3 r_austin init_state = Inr st' \<and>
      errors st' =
        [JObj [(''meetupID'', JStr ''austin''), (''meetupUrlRss'', JStr ''https://a.example/rss''),
               (''error'', JStr ''HTTPError 404: Not Found'')]] \<and>
      without_events st' = [r_austin] \<and>
      loop sample_env 2026 3 [r_austin, r_berlin] init_state = loop sample_env 2026 4 [r_berlin] st') \<and>
   is_record r_tokyo \<and> truthy (field r_tokyo ''meetupUrlRss'') \<and>
   fetch_outcome sample_env 2026 (field r_tokyo ''meetupUrlRss'') (clock init_state)
     = Inl (ValueError ''multi-byte encodings are not supported'') \<and>
   urlopen sample_env (clock init_state) (field r_tokyo ''meetupUrlRss'') = Inr feed_sjis \<and>
   (\<exists>st'. body sample_env 2026 1 r_tokyo init_state = Inr st' \<and>
      errors st' =
        [JObj [(''meetupID'', JStr ''tokyo''), (''meetupUrlRss'', JStr ''https://t.example/rss''),
               (''error'', JStr ''multi-byte encodings are not supported'')]] \<and>
      without_events st' = [r_tokyo]) \<and>
   json_load sample_env ''absent.json'' = Inl (OtherException ''No such file or directory'') \<and>
   main ascii_lower sample_env ''absent.json'' 2026 =
     ([], Inl (OtherException ''No such file or directory''))"
proof -
  have a1: "is_record r_austin" by code_simp
  have a2: "truthy (field r_austin ''meetupUrlRss'')" by code_simp
  have a3: "fetch_outcome sample_env 2026 (field r_austin ''meetupUrlRss'') (clock init_state)
     = Inl (HTTPError 404 ''Not Found'')" by code_simp
  have i: "resolve_id 3 (field r_austin ''meetupID'') (field r_austin ''meetupName'') = JStr ''austin''"
    by code_simp
  have u: "field r_austin ''meetupUrlRss'' = JStr ''https://a.example/rss''" by code_simp
  have msg: "error_msg (HTTPError 404 ''Not Found'') = ''HTTPError 404: Not Found''" by code_simp
  have t1: "is_record r_tokyo" by code_simp
  have t2: "truthy (field r_tokyo ''meetupUrlRss'')" by code_simp
  have t3: "fetch_outcome sample_env 2026 (field r_tokyo ''meetupUrlRss'') (clock init_state)
     = Inl (ValueError ''multi-byte encodings are not supported'')" by code_simp
  have t4: "urlopen sample_env (clock init_state) (field r_tokyo ''meetupUrlRss'') = Inr feed_sjis"
    by code_simp
  have ti: "resolve_id 1 (field r_tokyo ''meetupID'') (field r_tokyo ''meetupName'') = JStr ''tokyo''"
    by code_simp
  have tu: "field r_tokyo ''meetupUrlRss'' = JStr ''https://t.example/rss''" by code_simp
  have b1: "json_load sample_env ''absent.json'' = Inl (OtherException ''No such file or directory'')"
    by code_simp
  note t = failures_are_caught_per_record [of r_austin sample_env 2026 init_state
      "HTTPError 404 ''Not Found''" 3 "[r_berlin]" "''absent.json''"
      "OtherException ''No such file or directory''" ascii_lower]
  note t' = failures_are_caught_per_record [of r_tokyo sample_env 2026 init_state
      "ValueError ''multi-byte encodings are not supported''" 1 "[]" "''absent.json''"
      "OtherException ''No such file or directory''" ascii_lower]
  have A: "\<exists>st'. body sample_env 2026 3 r_austin init_state = Inr st' \<and>
      errors st' =
        [JObj [(''meetupID'', JStr ''austin''), (''meetupUrlRss'', JStr ''https://a.example/rss''),
               (''error'', JStr ''HTTPError 404: Not Found'')]] \<and>
      without_events st' = [r_austin] \<and>
      loop sample_env 2026 3 [r_austin, r_berlin] init_state = loop sample_env 2026 4 [r_berlin] st'"
    using t a1 a2 a3 unfolding i u msg by (auto simp: init_state_def)
  have T: "\<exists>st'. body sample_env 2026 1 r_tokyo init_state = Inr st' \<and>
      errors st' =
        [JObj [(''meetupID'', JStr ''tokyo''), (''meetupUrlRss'', JStr ''https://t.example/rss''),
               (''error'', JStr ''multi-byte encodings are not supported'')]] \<and>
      without_events st' = [r_tokyo]"
    using t' t1 t2 t3 unfolding ti tu by (auto simp: init_state_def)
  have B: "main ascii_lower sample_env ''absent.json'' 2026 =
      ([], Inl (OtherException ''No such file or directory''))"
    using t b1 by blast
  show ?thesis using a1 a2 a3 A t1 t2 t3 t4 T b1 B by blast
qed

text \<open>
  An input file that loads, with one record whose \<^verbatim>\<open>meetupID\<close> is the number 7:
  the record is processed (one request, one pause), then the sort raises and nothing
  is written.
\<close>

theorem crash_after_processing_counterexample:
  "json_load sample_env ''numeric_ids.json'' = Inr (JArr [r_numeric]) \<and>
   is_record r_numeric \<and>
   main ascii_lower sample_env ''numeric_ids.json'' 2026 =
     ([Fetch 0 (JStr ''https://z.example/rss''), Sleep 13],
      Inl (AttributeError ''int object has no attribute lower''))"
  by code_simp

subsection \<open>Runs that differ in their pauses only\<close>

lemma rss_same_parsers:
  assumes "ET_fromstring E1 = ET_fromstring E2"
    and "parsedate_to_datetime E1 = parsedate_to_datetime E2"
  shows "rss_has_pubdate_year E1 b ty = rss_has_pubdate_year E2 b ty"
  unfolding rss_has_pubdate_year_def assms by (rule refl)

lemma fetch_outcome_same:
  assumes "ET_fromstring E1 = ET_fromstring E2"
    and "parsedate_to_datetime E1 = parsedate_to_datetime E2"
    and "\<forall>t t' u. urlopen E1 t u = urlopen E2 t' u"
  shows "fetch_outcome E1 ty u t1 = fetch_outcome E2 ty u t2"
proof -
  have "urlopen E1 t1 u = urlopen E2 t2 u" using assms(3) by blast
  then show ?thesis
    by (simp add: fetch_outcome_def rss_same_parsers [OF assms(1,2)] split: sum.splits)
qed

lemma locals_missing_url:
  "locals (missing_url mid m st) =
     (case locals st of (w, wo, er, mc, nc, ec, pr) \<Rightarrow>
        (w, wo @ [m],
         er @ [JObj [(''meetupID'', mid), (''error'', JStr ''missing meetupUrlRss'')]],
         mc, nc, Suc ec, Suc pr))"
  by (simp add: locals_def missing_url_fields)

lemma locals_sleep_random: "locals (sleep_random E st) = locals st"
  by (simp add: locals_def sleep_random_fields)

lemma locals_fetch:
  "locals (fetch_and_classify E ty mid url m st) =
     (case locals st of (w, wo, er, mc, nc, ec, pr) \<Rightarrow>
        (case fetch_outcome E ty url (clock st) of
           Inl e \<Rightarrow>
             (w, wo @ [m],
              er @ [JObj [(''meetupID'', mid), (''meetupUrlRss'', url), (''error'', JStr (error_msg e))]],
              mc, nc, Suc ec, Suc pr)
         | Inr (has_match, seen, parsed) \<Rightarrow>
             if has_match then (w @ [m], wo, er, Suc mc, nc, ec, Suc pr)
             else (w, wo @ [m], er, mc, Suc nc, ec, Suc pr)))"
  by (simp add: locals_def fetch_and_classify_eq split: sum.splits prod.splits)

lemma body_same_locals:
  assumes "ET_fromstring E1 = ET_fromstring E2"
    and "parsedate_to_datetime E1 = parsedate_to_datetime E2"
    and "\<forall>t t' u. urlopen E1 t u = urlopen E2 t' u"
    and "locals st1 = locals st2"
  shows "map_sum id locals (body E1 ty idx m st1) = map_sum id locals (body E2 ty idx m st2)"
proof (cases "is_record m")
  case False
  then show ?thesis by (cases m) (simp_all add: body_def)
next
  case True
  have o: "fetch_outcome E1 ty (field m ''meetupUrlRss'') (clock st1) =
           fetch_outcome E2 ty (field m ''meetupUrlRss'') (clock st2)"
    using assms(1,2,3) by (rule fetch_outcome_same)
  show ?thesis
    using True assms(4) o
    by (simp add: body_record locals_missing_url locals_sleep_random locals_fetch)
qed

lemma loop_same_locals:
  assumes "ET_fromstring E1 = ET_fromstring E2"
    and "parsedate_to_datetime E1 = parsedate_to_datetime E2"
    and "\<forall>t t' u. urlopen E1 t u = urlopen E2 t' u"
    and "locals st1 = locals st2"
  shows "map_prod locals id (loop E1 ty idx ms st1) = map_prod locals id (loop E2 ty idx ms st2)"
  using assms(4)
proof (induction ms arbitrary: idx st1 st2)
  case Nil
  then show ?case by simp
next
  case (Cons m ms)
  have b: "map_sum id locals (body E1 ty idx m st1) = map_sum id locals (body E2 ty idx m st2)"
    using assms(1,2,3) Cons.prems by (rule body_same_locals)
  show ?case
  proof (cases "body E1 ty idx m st1")
    case (Inl e)
    then have "body E2 ty idx m st2 = Inl e"
      using b by (cases "body E2 ty idx m st2") simp_all
    then show ?thesis using Inl Cons.prems by simp
  next
    case (Inr s1)
    then obtain s2 where s2: "body E2 ty idx m st2 = Inr s2" and l: "locals s1 = locals s2"
      using b by (cases "body E2 ty idx m st2") simp_all
    show ?thesis using Inr s2 Cons.IH [OF l] by simp
  qed
qed

lemma locals_init: "locals st1 = locals st2 \<Longrightarrow>
  with_events st1 = with_events st2 \<and> without_events st1 = without_events st2 \<and>
  errors st1 = errors st2"
  by (simp add: locals_def)

text \<open>
  C8. Two runs on the same input file, with the same XML and date parsers, in which
  a request for a given URL gets the same answer (the same bytes or the same
  exception) whenever it is sent, end alike: both raise the same exception or both
  write the same three lists. Nothing is assumed of the random generators, so the
  lengths of the pauses, and the times at which the requests are sent, do not matter.
\<close>

theorem outputs_independent_of_pauses:
  assumes "json_load E1 p = json_load E2 p"
    and "ET_fromstring E1 = ET_fromstring E2"
    and "parsedate_to_datetime E1 = parsedate_to_datetime E2"
    and "\<forall>t t' u. urlopen E1 t u = urlopen E2 t' u"
  shows "snd (main L E1 p ty) = snd (main L E2 p ty)"
proof (cases "json_load E2 p")
  case (Inl e)
  then show ?thesis using assms(1) by (simp add: main_def)
next
  case (Inr meetups)
  show ?thesis
  proof (cases "py_iter meetups")
    case (Inl e)
    then show ?thesis using assms(1) Inr by (simp add: main_def)
  next
    case ms: (Inr ms)
    obtain s1 r1 where l1: "loop E1 ty 1 ms init_state = (s1, r1)"
      by (cases "loop E1 ty 1 ms init_state")
    obtain s2 r2 where l2: "loop E2 ty 1 ms init_state = (s2, r2)"
      by (cases "loop E2 ty 1 ms init_state")
    have "map_prod locals id (loop E1 ty 1 ms init_state) =
          map_prod locals id (loop E2 ty 1 ms init_state)"
      using assms(2,3,4) by (rule loop_same_locals) simp
    then have eq: "locals s1 = locals s2" and r: "r1 = r2"
      using l1 l2 by simp_all
    note f = locals_init [OF eq]
    show ?thesis
      using assms(1) Inr ms l1 l2 r f
      by (simp add: main_def split: option.splits sum.splits)
  qed
qed

theorem outputs_independent_of_pauses_witness:
  "json_load sample_env ''master_meetups.json'' = json_load sample_env2 ''master_meetups.json'' \<and>
   ET_fromstring sample_env = ET_fromstring sample_env2 \<and>
   parsedate_to_datetime sample_env = parsedate_to_datetime sample_env2 \<and>
   urlopen sample_env 0 (JStr ''https://z.example/rss'') =
     urlopen sample_env2 50 (JStr ''https://z.example/rss'') \<and>
   sleeps (fst (main ascii_lower sample_env ''master_meetups.json'' 2026)) = [13, 20, 27] \<and>
   sleeps (fst (main ascii_lower sample_env2 ''master_meetups.json'' 2026)) = [60, 60, 60] \<and>
   snd (main ascii_lower sample_env ''master_meetups.json'' 2026) =
     snd (main ascii_lower sample_env2 ''master_meetups.json'' 2026)"
proof -
  have h1: "json_load sample_env ''master_meetups.json'' = json_load sample_env2 ''master_meetups.json''"
    by (simp add: sample_env2_def)
  have h2: "ET_fromstring sample_env = ET_fromstring sample_env2"
    by (simp add: sample_env2_def)
  have h3: "parsedate_to_datetime sample_env = parsedate_to_datetime sample_env2"
    by (simp add: sample_env2_def)
  have h4: "\<forall>t t' u. urlopen sample_env t u = urlopen sample_env2 t' u"
    by (simp add: sample_env2_def sample_env_def)
  have s1: "sleeps (fst (main ascii_lower sample_env ''master_meetups.json'' 2026)) = [13, 20, 27]"
    by code_simp
  have s2: "sleeps (fst (main ascii_lower sample_env2 ''master_meetups.json'' 2026)) = [60, 60, 60]"
    by code_simp
  show ?thesis
    using outputs_independent_of_pauses [OF h1 h2 h3 h4, of ascii_lower 2026] h1 h2 h3 h4 s1 s2 by blast
qed

end
